theory Spec2Isabelle
  imports Complex_Main
begin

section \<open>Python values used by the panel discussion engine\<close>

text \<open>
  The development embeds \<^verbatim>\<open>agents/panel_discussion_strands_v2.py\<close>.

  A Python \<^verbatim>\<open>str\<close> is modelled as a \<open>string\<close> whose characters are code points
  below 256 (the Latin-1 range is what \<open>char\<close> can hold).  Python raises are values of
  \<open>py_error\<close>.  A Python \<^verbatim>\<open>float\<close> is a \<open>real\<close>; every floating-point operation of
  the source is written \<open>rnd (the real result)\<close>, where \<open>rnd\<close> is the rounding of the
  arithmetic: \<open>binary64\<close> below, CPython's IEEE-754 doubles (round to nearest, ties to
  even).
\<close>

datatype py_error = KeyError string | IndexError | ValueError

definition py_isspace :: "char \<Rightarrow> bool" where
  "py_isspace c =
     (let n = (of_char c :: nat)
      in (9 \<le> n \<and> n \<le> 13) \<or> (28 \<le> n \<and> n \<le> 32) \<or> n = 133 \<or> n = 160)"

definition is_decimal :: "char \<Rightarrow> bool" where
  "is_decimal c = (let n = (of_char c :: nat) in 48 \<le> n \<and> n \<le> 57)"

definition py_isdigit :: "char \<Rightarrow> bool" where
  \<comment> \<open>\<^verbatim>\<open>str.isdigit\<close>: the decimal digits and the superscripts \<^verbatim>\<open>U+00B2, U+00B3, U+00B9\<close>.\<close>
  "py_isdigit c =
     (let n = (of_char c :: nat) in (48 \<le> n \<and> n \<le> 57) \<or> n = 178 \<or> n = 179 \<or> n = 185)"

definition lower_char :: "char \<Rightarrow> char" where
  "lower_char c =
     (let n = (of_char c :: nat)
      in if (65 \<le> n \<and> n \<le> 90) \<or> (192 \<le> n \<and> n \<le> 222 \<and> n \<noteq> 215)
         then char_of (n + 32) else c)"

definition lower :: "string \<Rightarrow> string" where
  "lower s = map lower_char s"

definition upper_char :: "char \<Rightarrow> char" where
  \<comment> \<open>\<^verbatim>\<open>str.upper\<close> on ASCII letters, the only ones the engine upper-cases.\<close>
  "upper_char c =
     (let n = (of_char c :: nat) in if 97 \<le> n \<and> n \<le> 122 then char_of (n - 32) else c)"

definition upper :: "string \<Rightarrow> string" where
  "upper s = map upper_char s"

definition strip :: "string \<Rightarrow> string" where
  "strip s = rev (dropWhile py_isspace (rev (dropWhile py_isspace s)))"

definition startswith :: "string \<Rightarrow> string \<Rightarrow> bool" where
  "startswith s p = (take (length p) s = p)"

fun py_in :: "string \<Rightarrow> string \<Rightarrow> bool" where
  \<comment> \<open>\<^verbatim>\<open>needle in hay\<close> on strings.\<close>
  "py_in needle [] = (needle = [])"
| "py_in needle (h # t) = (startswith (h # t) needle \<or> py_in needle t)"

fun split_on :: "char \<Rightarrow> string \<Rightarrow> string list" where
  \<comment> \<open>\<^verbatim>\<open>s.split(sep)\<close> for a one-character separator.\<close>
  "split_on sep [] = [[]]"
| "split_on sep (x # xs) =
     (if x = sep then [] # split_on sep xs
      else (case split_on sep xs of [] \<Rightarrow> [[x]] | p # ps \<Rightarrow> (x # p) # ps))"

definition split_once :: "char \<Rightarrow> string \<Rightarrow> string list" where
  \<comment> \<open>\<^verbatim>\<open>s.split(sep, 1)\<close>.\<close>
  "split_once sep s =
     (case dropWhile (\<lambda>x. x \<noteq> sep) s of
        [] \<Rightarrow> [s]
      | _ # rest \<Rightarrow> [takeWhile (\<lambda>x. x \<noteq> sep) s, rest])"

definition py_index :: "'a list \<Rightarrow> nat \<Rightarrow> py_error + 'a" where
  "py_index xs i = (if i < length xs then Inr (xs ! i) else Inl IndexError)"

fun join :: "string \<Rightarrow> string list \<Rightarrow> string" where
  \<comment> \<open>\<^verbatim>\<open>sep.join(xs)\<close>.\<close>
  "join sep [] = []"
| "join sep [x] = x"
| "join sep (x # y # ys) = x @ sep @ join sep (y # ys)"

definition decimal_value :: "string \<Rightarrow> nat" where
  "decimal_value ds = foldl (\<lambda>a c. 10 * a + (of_char c - 48)) 0 ds"

definition py_float :: "string \<Rightarrow> real option" where
  \<comment> \<open>The exact value \<^verbatim>\<open>float(s)\<close> denotes, for \<open>s\<close> made of \<^verbatim>\<open>isdigit\<close> characters and
      periods (all that the caller's filter lets through); \<open>None\<close> is \<^verbatim>\<open>ValueError\<close>.\<close>
  "py_float s =
     (let ip = takeWhile is_decimal s; rest = dropWhile is_decimal s
      in case rest of
           [] \<Rightarrow> if ip = [] then None else Some (real (decimal_value ip))
         | c # fp \<Rightarrow>
             if c = CHR ''.'' \<and> list_all is_decimal fp \<and> (ip \<noteq> [] \<or> fp \<noteq> [])
             then Some (real (decimal_value ip) + real (decimal_value fp) / 10 ^ length fp)
             else None)"

section \<open>Data model\<close>

record ExpertAnalysis =
  a_expert_role :: string
  analysis_text :: string
  a_round_number :: int

record Vote =
  expert_role :: string
  vote_mood :: string
  confidence :: real
  reasoning :: string

record Transcript =
  speaker :: string
  content :: string
  round_number :: "int option"
  turn_order :: nat

section \<open>Vote decoder\<close>

definition parse_vote_line ::
  "(real \<Rightarrow> real) \<Rightarrow> string \<Rightarrow> string \<times> real \<times> string \<Rightarrow> py_error + string \<times> real \<times> string"
where
  \<comment> \<open>One iteration of the loop of \<^verbatim>\<open>_parse_vote\<close> on the locals
      \<^verbatim>\<open>mood, confidence, reasoning\<close>.\<close>
  "parse_vote_line rnd line st =
     (case st of (mood, conf, reason) \<Rightarrow>
      let line_lower = strip (lower line)
      in if startswith line_lower ''vote:'' then
           (case py_index (split_once CHR '':'' line) 1 of
              Inl e \<Rightarrow> Inl e
            | Inr v \<Rightarrow>
                let mood_text = lower (strip v)
                in Inr (if py_in ''happy'' mood_text then ''happy''
                        else if py_in ''sad'' mood_text then ''sad''
                        else ''neutral'', conf, reason))
         else if startswith line_lower ''confidence:'' then
           (case py_index (split_once CHR '':'' line) 1 of
              Inl e \<Rightarrow> Inl e
            | Inr v \<Rightarrow>
                let conf_text = strip v
                in (case py_float (filter (\<lambda>c. py_isdigit c \<or> c = CHR ''.'') conf_text) of
                      None \<Rightarrow> Inl ValueError
                    | Some x \<Rightarrow>
                        let conf_num = rnd x
                        in Inr (mood, rnd (min 100 (max 0 conf_num) / 100), reason)))
         else if startswith line_lower ''reasoning:'' then
           (case py_index (split_once CHR '':'' line) 1 of
              Inl e \<Rightarrow> Inl e
            | Inr v \<Rightarrow> Inr (mood, conf, strip v))
         else Inr (mood, conf, reason))"

fun parse_vote_lines ::
  "(real \<Rightarrow> real) \<Rightarrow> string list \<Rightarrow> string \<times> real \<times> string
     \<Rightarrow> (string \<times> real \<times> string) \<times> py_error option"
where
  \<comment> \<open>The \<^verbatim>\<open>for line in lines\<close> loop inside the \<^verbatim>\<open>try\<close>: the locals when the loop ends, and
      the exception that ended it, if any.\<close>
  "parse_vote_lines rnd [] st = (st, None)"
| "parse_vote_lines rnd (l # ls) st =
     (case parse_vote_line rnd l st of
        Inl e \<Rightarrow> (st, Some e)
      | Inr st' \<Rightarrow> parse_vote_lines rnd ls st')"

definition parse_vote :: "(real \<Rightarrow> real) \<Rightarrow> string \<Rightarrow> string \<Rightarrow> Vote" where
  "parse_vote rnd role response =
     (case parse_vote_lines rnd (split_on CHR ''\<newline>'' response) (''neutral'', 1 / 2, '''') of
        ((mood, conf, reason), err) \<Rightarrow>
          let reasoning' = (case err of None \<Rightarrow> reason | Some e \<Rightarrow> response)
          in \<lparr>expert_role = role, vote_mood = mood, confidence = conf,
              reasoning = (if reasoning' \<noteq> [] then reasoning' else response)\<rparr>)"

section \<open>Score aggregator\<close>

definition mood_values :: "string \<rightharpoonup> real" where
  "mood_values = [''happy'' \<mapsto> 100, ''neutral'' \<mapsto> 50, ''sad'' \<mapsto> 0]"

fun tally :: "(real \<Rightarrow> real) \<Rightarrow> Vote list \<Rightarrow> real \<times> real \<Rightarrow> py_error + real \<times> real" where
  \<comment> \<open>The \<^verbatim>\<open>for vote in votes\<close> loop on \<open>(total_score, total_weight)\<close>.\<close>
  "tally rnd [] acc = Inr acc"
| "tally rnd (vote # votes) acc =
     (case acc of (total_score, total_weight) \<Rightarrow>
        (case mood_values (vote_mood vote) of
           None \<Rightarrow> Inl (KeyError (vote_mood vote))
         | Some mood_value \<Rightarrow>
             let weighted_score = rnd (mood_value * confidence vote)
             in tally rnd votes
                  (rnd (total_score + weighted_score), rnd (total_weight + confidence vote))))"

definition calculate_final_mood ::
  "(real \<Rightarrow> real) \<Rightarrow> Vote list \<Rightarrow> py_error + string \<times> real"
where
  "calculate_final_mood rnd votes =
     (case tally rnd votes (0, 0) of
        Inl e \<Rightarrow> Inl e
      | Inr (total_score, total_weight) \<Rightarrow>
          if total_weight = 0 then Inr (''neutral'', 50)
          else
            let final_score = rnd (total_score / total_weight)
            in Inr (if final_score \<ge> 67 then ''happy''
                    else if final_score \<ge> 34 then ''neutral''
                    else ''sad'', final_score))"

section \<open>Routing decoder\<close>

text \<open>
  The parsing half of \<^verbatim>\<open>_moderator_decide_followup\<close>: the locals are
  \<^verbatim>\<open>should_continue, target_experts\<close>; the \<^verbatim>\<open>Reason:\<close> branch only prints.
\<close>

fun match_mentioned :: "string \<Rightarrow> string list \<Rightarrow> string list \<Rightarrow> string list" where
  \<comment> \<open>The inner \<^verbatim>\<open>for mentioned in mentioned_experts\<close> loop, left at the first match.\<close>
  "match_mentioned expert [] target_experts = target_experts"
| "match_mentioned expert (mentioned # rest) target_experts =
     (if py_in (lower mentioned) (lower expert) \<or> py_in (lower expert) (lower mentioned)
      then (if expert \<notin> set target_experts then target_experts @ [expert] else target_experts)
      else match_mentioned expert rest target_experts)"

fun match_experts :: "string list \<Rightarrow> string list \<Rightarrow> string list \<Rightarrow> string list" where
  \<comment> \<open>The outer \<^verbatim>\<open>for expert in self.expert_roles\<close> loop.\<close>
  "match_experts [] mentioned_experts target_experts = target_experts"
| "match_experts (expert # experts) mentioned_experts target_experts =
     match_experts experts mentioned_experts
       (match_mentioned expert mentioned_experts target_experts)"

definition route_line ::
  "string list \<Rightarrow> string \<Rightarrow> bool \<times> string list \<Rightarrow> py_error + bool \<times> string list"
where
  "route_line roster line st =
     (case st of (should_continue, target_experts) \<Rightarrow>
      let line_lower = strip (lower line)
      in if startswith line_lower ''continue:'' then
           (case py_index (split_once CHR '':'' line) 1 of
              Inl e \<Rightarrow> Inl e
            | Inr v \<Rightarrow>
                let continue_text = lower (strip v)
                in Inr (py_in ''yes'' continue_text, target_experts))
         else if startswith line_lower ''target experts:'' then
           (case py_index (split_once CHR '':'' line) 1 of
              Inl e \<Rightarrow> Inl e
            | Inr v \<Rightarrow>
                let experts_text = strip v
                in if py_in ''none'' (lower experts_text) then Inr (False, [])
                   else if py_in ''all'' (lower experts_text) then Inr (should_continue, roster)
                   else
                     let mentioned_experts = map strip (split_on CHR '','' experts_text)
                     in Inr (should_continue,
                             match_experts roster mentioned_experts target_experts))
         else if startswith line_lower ''reason:'' then
           (case py_index (split_once CHR '':'' line) 1 of
              Inl e \<Rightarrow> Inl e
            | Inr v \<Rightarrow> Inr (should_continue, target_experts))
         else Inr (should_continue, target_experts))"

fun route_lines ::
  "string list \<Rightarrow> string list \<Rightarrow> bool \<times> string list \<Rightarrow> (bool \<times> string list) \<times> py_error option"
where
  "route_lines roster [] st = (st, None)"
| "route_lines roster (l # ls) st =
     (case route_line roster l st of
        Inl e \<Rightarrow> (st, Some e)
      | Inr st' \<Rightarrow> route_lines roster ls st')"

definition decide_followup :: "string list \<Rightarrow> string \<Rightarrow> bool \<times> string list" where
  \<comment> \<open>From \<^verbatim>\<open>should_continue = False\<close> to the \<^verbatim>\<open>return\<close>; the \<^verbatim>\<open>except\<close> branch continues
      with all experts.\<close>
  "decide_followup roster response =
     (case route_lines roster (split_on CHR ''\<newline>'' response) (False, []) of
        (st, None) \<Rightarrow> st
      | (st, Some e) \<Rightarrow> (True, roster))"

section \<open>Rendering numbers\<close>

function show_nat :: "nat \<Rightarrow> string" where
  \<comment> \<open>\<^verbatim>\<open>str(n)\<close> for a non-negative integer.\<close>
  "show_nat n =
     (if n < 10 then [char_of (48 + n)] else show_nat (n div 10) @ [char_of (48 + n mod 10)])"
  by pat_completeness auto
termination
  by (relation "measure id") auto

definition show_int :: "int \<Rightarrow> string" where
  "show_int i = (if i < 0 then ''-'' @ show_nat (nat (- i)) else show_nat (nat i))"

definition py_int :: "real \<Rightarrow> int" where
  \<comment> \<open>\<^verbatim>\<open>int(x)\<close> on a float: truncation towards zero.\<close>
  "py_int x = (if x < 0 then - \<lfloor>- x\<rfloor> else \<lfloor>x\<rfloor>)"

definition round_half_even :: "real \<Rightarrow> int" where
  "round_half_even x =
     (let f = \<lfloor>x\<rfloor>; d = x - of_int f
      in if d < 1 / 2 then f else if 1 / 2 < d then f + 1 else if even f then f else f + 1)"

definition format_1f :: "real \<Rightarrow> string" where
  \<comment> \<open>The format \<^verbatim>\<open>{x:.1f}\<close>: one decimal, the exact value rounded half to even.\<close>
  "format_1f x =
     (let n = round_half_even (\<bar>x\<bar> * 10)
      in (if x < 0 then ''-'' else '''') @ show_nat (nat (n div 10)) @ ''.''
         @ show_nat (nat (n mod 10)))"

section \<open>Floating-point rounding\<close>

text \<open>
  CPython's \<^verbatim>\<open>float\<close> is the IEEE-754 double.  \<open>binary64 x\<close> is the double nearest to the
  real \<open>x\<close>, ties going to the even significand: with \<open>e\<close> the binary exponent of \<open>x\<close>
  (not below \<open>-1022\<close>, where the subnormal numbers start), \<open>x\<close> is rounded to a multiple of
  \<open>2 ^ (e - 52)\<close>.  Overflow to infinity is not modelled: the only unbounded number of the
  program is the parsed confidence, which is clamped to \<open>[0,100]\<close> at once, and there infinity
  and a large finite number give the same result.
\<close>

fun halvings :: "nat \<Rightarrow> real \<Rightarrow> int" where
  \<comment> \<open>How often \<open>x \<ge> 1\<close> is halved before it is below 2, at most \<open>n\<close> times.\<close>
  "halvings 0 x = 0"
| "halvings (Suc n) x = (if x < 2 then 0 else 1 + halvings n (x / 2))"

fun doublings :: "nat \<Rightarrow> real \<Rightarrow> int" where
  \<comment> \<open>Minus the number of times \<open>0 < x < 1\<close> is doubled before it reaches 1, at most \<open>n\<close> times.\<close>
  "doublings 0 x = 0"
| "doublings (Suc n) x = (if 1 \<le> x then 0 else doublings n (2 * x) - 1)"

definition exponent :: "real \<Rightarrow> int" where
  \<comment> \<open>The binary exponent of a positive number, kept within \<open>[-1022, 1023]\<close>.\<close>
  "exponent x = (if 1 \<le> x then halvings 1023 x else doublings 1022 x)"

definition binary64 :: "real \<Rightarrow> real" where
  "binary64 x =
     (if x = 0 then 0
      else let e = exponent \<bar>x\<bar> - 52
           in of_int (round_half_even (x / 2 powi e)) * 2 powi e)"

section \<open>Respondents and the panel state\<close>

text \<open>
  The text-completion capability behind a respondent is a parameter \<open>llm\<close>: given the state
  of the outside world, the agent and the prompt it answers with a text or fails
  (\<open>None\<close>, any \<^verbatim>\<open>Exception\<close>), and the world moves on.  Printing is not modelled.
\<close>

record ExpertAgent =
  agent_role :: string
  system_prompt :: string
  agent_model_id :: string

type_synonym 'w completion = "'w \<Rightarrow> ExpertAgent \<Rightarrow> string \<Rightarrow> string option \<times> 'w"

definition respond :: "'w completion \<Rightarrow> ExpertAgent \<Rightarrow> string \<Rightarrow> 'w \<Rightarrow> string \<times> 'w" where
  \<comment> \<open>\<^verbatim>\<open>ExpertAgent.respond\<close>.\<close>
  "respond llm agent prompt w =
     (case llm w agent prompt of
        (Some response, w') \<Rightarrow> (response, w')
      | (None, w') \<Rightarrow> (''[Error from '' @ agent_role agent @ '']'', w'))"

record 'w panel =
  self_model_id :: string
  self_transcripts :: "Transcript list"
  self_analyses :: "ExpertAnalysis list"
  self_turn_order :: nat
  expert_roles :: "string list"
  agents :: "string \<rightharpoonup> ExpertAgent"
  world :: 'w

definition moderator_instruction :: string where
  \<open>moderator_instruction =
     ''You are a professional panel discussion moderator. Your role ''
     @ ''is to:\<newline>- Introduce topics clearly and engagingly\<newline>''
     @ ''- Ask probing questions to experts\<newline>- Guide the discussion ''
     @ ''flow\<newline>- Synthesize different viewpoints\<newline>- Provide ''
     @ ''balanced conclusions\<newline>Keep your responses concise but '' @ ''insightful.''\<close>

definition expert_instructions :: "(string \<times> string) list" where
  \<open>expert_instructions =
   [(''Economic Analyst'',
     ''You are an Economic Analyst expert. Analyze:\<newline>- GDP ''
     @ ''growth, employment, inflation\<newline>- Trade, exports, industrial ''
     @ ''sectors\<newline>- Economic policies and reforms\<newline>- ''
     @ ''Infrastructure development\<newline>Provide data-driven insights ''
     @ ''with specific numbers when possible.''),
    (''Social Welfare Specialist'',
     ''You are a Social Welfare Specialist. Analyze:\<newline>- Quality ''
     @ ''of life, healthcare, education\<newline>- Work-life balance, ''
     @ ''social programs\<newline>- Inequality, social mobility\<newline>''
     @ ''- Cultural trends and public sentiment\<newline>Focus on human ''
     @ ''well-being and social cohesion.''),
    (''Environmental Scientist'',
     ''You are an Environmental Scientist. Analyze:\<newline>- Climate ''
     @ ''change impacts and policies\<newline>- Pollution levels, renewable ''
     @ ''energy\<newline>- Resource management, sustainability\<newline>''
     @ ''- Environmental regulations\<newline>Assess environmental health ''
     @ ''and future risks.'')]\<close>

definition init_panel :: "string \<Rightarrow> 'w \<Rightarrow> 'w panel" where
  \<comment> \<open>\<^verbatim>\<open>PanelDiscussionStrandsV2.__init__\<close>.\<close>
  "init_panel mid w =
     \<lparr>self_model_id = mid, self_transcripts = [], self_analyses = [], self_turn_order = 0,
      expert_roles = [''Economic Analyst'', ''Social Welfare Specialist'',
                      ''Environmental Scientist''],
      agents = map_of
        ((''moderator'',
          \<lparr>agent_role = ''Moderator'', system_prompt = moderator_instruction,
           agent_model_id = mid\<rparr>)
         # map (\<lambda>(role, instruction).
                  (role, \<lparr>agent_role = role, system_prompt = instruction,
                          agent_model_id = mid\<rparr>)) expert_instructions),
      world = w\<rparr>"

definition agent_respond ::
  "'w completion \<Rightarrow> string \<Rightarrow> string \<Rightarrow> 'w panel \<Rightarrow> (py_error + string) \<times> 'w panel"
where
  \<comment> \<open>\<^verbatim>\<open>self.agents[key].respond(prompt)\<close>.\<close>
  "agent_respond llm key prompt s =
     (case agents s key of
        None \<Rightarrow> (Inl (KeyError key), s)
      | Some agent \<Rightarrow>
          (case respond llm agent prompt (world s) of
             (response, w') \<Rightarrow> (Inr response, s\<lparr>world := w'\<rparr>)))"

section \<open>Transcript log\<close>

definition add_transcript :: "string \<Rightarrow> string \<Rightarrow> int option \<Rightarrow> 'w panel \<Rightarrow> 'w panel" where
  "add_transcript who txt rn s =
     s\<lparr>self_turn_order := self_turn_order s + 1,
       self_transcripts := self_transcripts s
         @ [\<lparr>speaker = who, content = txt, round_number = rn,
             turn_order = self_turn_order s + 1\<rparr>]\<rparr>"

definition add_analysis :: "string \<Rightarrow> string \<Rightarrow> int \<Rightarrow> 'w panel \<Rightarrow> 'w panel" where
  \<comment> \<open>\<^verbatim>\<open>self.analyses.append(ExpertAnalysis(...))\<close>.\<close>
  "add_analysis role txt rn s =
     s\<lparr>self_analyses := self_analyses s
         @ [\<lparr>a_expert_role = role, analysis_text = txt, a_round_number = rn\<rparr>]\<rparr>"

definition get_recent_discussion :: "nat \<Rightarrow> 'w panel \<Rightarrow> string" where
  "get_recent_discussion num_turns s =
     (let recent =
            (if length (self_transcripts s) > num_turns
             then drop (length (self_transcripts s) - num_turns) (self_transcripts s)
             else self_transcripts s)
      in join ''\<newline>\<newline>'' (map (\<lambda>t. speaker t @ '': '' @ content t) recent))"

section \<open>Context\<close>

text \<open>
  The caller's \<^verbatim>\<open>country_data\<close> dictionary, as far as \<^verbatim>\<open>_build_context\<close> reads it: the
  titles of the news items when the key \<^verbatim>\<open>news\<close> is present (\<open>None\<close> for an item without
  a title), the description and temperature (as \<^verbatim>\<open>str\<close> renders them) when the key
  \<^verbatim>\<open>weather\<close> is present, and whether the dictionary has any other key.
\<close>

datatype weather = Weather "string option" "string option"

datatype country_data = CountryData "string option list option" "weather option" bool

definition or_na :: "string option \<Rightarrow> string" where
  "or_na v = (case v of None \<Rightarrow> ''N/A'' | Some x \<Rightarrow> x)"

definition build_context :: "string \<Rightarrow> country_data option \<Rightarrow> string" where
  "build_context country_code data =
     (case data of
        None \<Rightarrow>
          ''Analyze the current state of '' @ country_code
          @ '' based on recent developments.''
      | Some (CountryData news wthr other) \<Rightarrow>
          if news = None \<and> wthr = None \<and> \<not> other then
            ''Analyze the current state of '' @ country_code
            @ '' based on recent developments.''
          else
            let context_parts =
                  (case news of
                     None \<Rightarrow> []
                   | Some items \<Rightarrow>
                       ''Recent News Headlines:''
                       # map (\<lambda>title. ''- '' @ or_na title) (take 5 items))
                  @ (case wthr of
                       None \<Rightarrow> []
                     | Some (Weather descr tmp) \<Rightarrow>
                         [''\<newline>Current Conditions: '' @ or_na descr @ '', '' @ or_na tmp
                          @ [CHR 0xB0] @ ''C''])
            in if context_parts \<noteq> [] then join ''\<newline>'' context_parts
               else ''Current analysis of '' @ country_code)"

section \<open>Phases of a discussion\<close>

definition introduce_prompt :: "string \<Rightarrow> string \<Rightarrow> string \<Rightarrow> string" where
  \<open>introduce_prompt country_code topic context =
     ''Welcome everyone to today's expert panel discussion.\<newline>''
     @ ''\<newline>Topic: '' @ topic @ ''\<newline>Country: '' @ country_code
     @ ''\<newline>\<newline>'' @ context
     @ ''\<newline>\<newline>As moderator, introduce this panel discussion ''
     @ ''in 2-3 sentences. Explain what we'll be examining and why it ''
     @ ''matters. Make it engaging and set the stage for expert analysis.''\<close>

definition moderator_introduce ::
  "'w completion \<Rightarrow> string \<Rightarrow> string \<Rightarrow> string \<Rightarrow> 'w panel \<Rightarrow> (py_error + string) \<times> 'w panel"
where
  "moderator_introduce llm country_code topic context s =
     (case agent_respond llm ''moderator'' (introduce_prompt country_code topic context) s of
        (Inl e, s1) \<Rightarrow> (Inl e, s1)
      | (Inr introduction, s1) \<Rightarrow>
          (Inr introduction, add_transcript ''Moderator'' introduction None s1))"

definition first_question :: "string \<Rightarrow> string \<Rightarrow> string" where
  \<open>first_question first_role country_code =
     ''Let's begin with our expert analyses. '' @ first_role
     @ '', what's your assessment of '' @ country_code @ [CHR 0x27] @ ''s situation?''\<close>

definition later_question :: string where
  \<open>later_question =
     ''Let's continue our analysis. What are your updated perspectives ''
     @ ''based on our discussion?''\<close>

definition opening_prompt :: "string \<Rightarrow> string \<Rightarrow> string \<Rightarrow> string \<Rightarrow> string" where
  \<open>opening_prompt role country_code context topic =
     ''As the '' @ role @ '' on this panel, provide your opening analysis of ''
     @ country_code @ ''.\<newline>\<newline>Context:\<newline>'' @ context
     @ ''\<newline>\<newline>Topic: '' @ topic
     @ ''\<newline>\<newline>Give your expert perspective in 2-4 sentences. ''
     @ ''Be specific with data or examples where possible.''\<close>

definition round_prompt :: "int \<Rightarrow> string \<Rightarrow> string \<Rightarrow> string \<Rightarrow> string" where
  \<open>round_prompt rn country_code recent_discussion role =
     ''Round '' @ show_int rn @ '' of our discussion about '' @ country_code
     @ ''.\<newline>\<newline>Previous discussion:\<newline>'' @ recent_discussion
     @ ''\<newline>\<newline>As the '' @ role
     @ '', provide your analysis addressing:\<newline>- New insights ''
     @ ''based on what other experts said\<newline>- Your perspective ''
     @ ''on the key issues raised\<newline>- Specific evidence or examples\<newline>''
     @ ''\<newline>Keep it focused (2-4 sentences).''\<close>

fun collect_experts ::
  "'w completion \<Rightarrow> string \<Rightarrow> string \<Rightarrow> string \<Rightarrow> int \<Rightarrow> bool \<Rightarrow> string list \<Rightarrow> 'w panel
     \<Rightarrow> (py_error + unit) \<times> 'w panel"
where
  \<comment> \<open>The loop \<^verbatim>\<open>for i, role in enumerate(self.expert_roles)\<close> of
      \<^verbatim>\<open>_collect_round_analyses\<close>.\<close>
  "collect_experts llm country_code topic context rn is_first [] s = (Inr (), s)"
| "collect_experts llm country_code topic context rn is_first (role # roles) s =
     (let prompt =
            (if is_first then opening_prompt role country_code context topic
             else round_prompt rn country_code (get_recent_discussion 8 s) role)
      in case agent_respond llm role prompt s of
           (Inl e, s1) \<Rightarrow> (Inl e, s1)
         | (Inr analysis_txt, s1) \<Rightarrow>
             collect_experts llm country_code topic context rn is_first roles
               (add_transcript role analysis_txt (Some rn)
                 (add_analysis role analysis_txt rn s1)))"

definition collect_round_analyses ::
  "'w completion \<Rightarrow> string \<Rightarrow> string \<Rightarrow> string \<Rightarrow> int \<Rightarrow> bool \<Rightarrow> 'w panel
     \<Rightarrow> (py_error + unit) \<times> 'w panel"
where
  "collect_round_analyses llm country_code topic context rn is_first s =
     (case (if is_first
            then (case py_index (expert_roles s) 0 of
                    Inl e \<Rightarrow> Inl e
                  | Inr first_role \<Rightarrow> Inr (first_question first_role country_code))
            else Inr later_question) of
        Inl e \<Rightarrow> (Inl e, s)
      | Inr moderator_q \<Rightarrow>
          collect_experts llm country_code topic context rn is_first (expert_roles s)
            (add_transcript ''Moderator'' moderator_q (Some rn) s))"

definition followup_prompt :: "string \<Rightarrow> string \<Rightarrow> string list \<Rightarrow> string" where
  \<open>followup_prompt country_code recent_discussion roster =
     ''You are the moderator of an expert panel discussing '' @ country_code
     @ ''.\<newline>\<newline>Recent discussion:\<newline>'' @ recent_discussion
     @ ''\<newline>\<newline>Analyze the discussion and decide:\<newline>''
     @ ''1. Have the experts provided sufficient diverse perspectives?\<newline>''
     @ ''2. Are there any unresolved questions or contradictions?\<newline>''
     @ ''3. Do we need to hear more from specific experts?\<newline>\<newline>''
     @ ''Available experts: '' @ join '', '' roster
     @ ''\<newline>\<newline>Respond in this exact format:\<newline>Continue: ''
     @ ''[Yes/No]\<newline>Target Experts: [comma-separated list of expert ''
     @ ''roles to follow up with, or "All" if everyone should respond, ''
     @ ''or "None" if discussion is complete]\<newline>Reason: [Brief ''
     @ ''explanation in 1 sentence]''\<close>

definition moderator_decide_followup ::
  "'w completion \<Rightarrow> string \<Rightarrow> string \<Rightarrow> int \<Rightarrow> 'w panel
     \<Rightarrow> (py_error + bool \<times> string list) \<times> 'w panel"
where
  "moderator_decide_followup llm country_code topic rn s =
     (case agent_respond llm ''moderator''
             (followup_prompt country_code (get_recent_discussion 12 s) (expert_roles s)) s of
        (Inl e, s1) \<Rightarrow> (Inl e, s1)
      | (Inr response, s1) \<Rightarrow> (Inr (decide_followup (expert_roles s1) response), s1))"

definition question_all_prompt :: "string \<Rightarrow> string \<Rightarrow> string" where
  \<open>question_all_prompt country_code recent =
     ''Based on our discussion about '' @ country_code @ '':\<newline>\<newline>'' @ recent
     @ ''\<newline>\<newline>As moderator, pose a follow-up question ''
     @ ''or raise an important point that needs clarification. Be specific ''
     @ ''(1-2 sentences).''\<close>

definition question_some_prompt :: "string \<Rightarrow> string \<Rightarrow> string \<Rightarrow> string" where
  \<open>question_some_prompt country_code recent expert_names =
     ''Based on our discussion about '' @ country_code @ '':\<newline>\<newline>'' @ recent
     @ ''\<newline>\<newline>As moderator, pose a targeted follow-up ''
     @ ''question specifically for '' @ expert_names
     @ ''. Focus on their area of expertise and ask for deeper insights ''
     @ ''(1-2 sentences).''\<close>

definition answer_prompt :: "int \<Rightarrow> string \<Rightarrow> string \<Rightarrow> string \<Rightarrow> string" where
  \<open>answer_prompt rn role moderator_question recent_context =
     ''Round '' @ show_int rn @ '' - Follow-up question for you as '' @ role
     @ '':\<newline>\<newline>Moderator's question: '' @ moderator_question
     @ ''\<newline>\<newline>Recent discussion context:\<newline>'' @ recent_context
     @ ''\<newline>\<newline>Provide your expert response addressing ''
     @ ''the moderator's question. Be specific with evidence or examples ''
     @ ''(2-4 sentences).''\<close>

fun debate_experts ::
  "'w completion \<Rightarrow> int \<Rightarrow> string \<Rightarrow> string list \<Rightarrow> 'w panel \<Rightarrow> (py_error + unit) \<times> 'w panel"
where
  \<comment> \<open>The loop \<^verbatim>\<open>for role in target_experts\<close> of \<^verbatim>\<open>_conduct_dynamic_debate_round\<close>.\<close>
  "debate_experts llm rn moderator_question [] s = (Inr (), s)"
| "debate_experts llm rn moderator_question (role # roles) s =
     (case agent_respond llm role
             (answer_prompt rn role moderator_question (get_recent_discussion 8 s)) s of
        (Inl e, s1) \<Rightarrow> (Inl e, s1)
      | (Inr analysis_txt, s1) \<Rightarrow>
          debate_experts llm rn moderator_question roles
            (add_transcript role analysis_txt (Some rn)
              (add_analysis role analysis_txt rn s1)))"

definition conduct_dynamic_debate_round ::
  "'w completion \<Rightarrow> string \<Rightarrow> string \<Rightarrow> int \<Rightarrow> string list \<Rightarrow> 'w panel
     \<Rightarrow> (py_error + unit) \<times> 'w panel"
where
  "conduct_dynamic_debate_round llm country_code topic rn target_experts s =
     (let targets = (if target_experts = [] then expert_roles s else target_experts);
          recent = get_recent_discussion 10 s;
          moderator_prompt =
            (if length targets = length (expert_roles s)
             then question_all_prompt country_code recent
             else question_some_prompt country_code recent (join '', '' targets))
      in case agent_respond llm ''moderator'' moderator_prompt s of
           (Inl e, s1) \<Rightarrow> (Inl e, s1)
         | (Inr moderator_question, s1) \<Rightarrow>
             debate_experts llm rn moderator_question targets
               (add_transcript ''Moderator'' moderator_question (Some rn) s1))"

definition moderator_call :: string where
  \<open>moderator_call =
     ''Let's move to our final assessments. I'd like each expert to ''
     @ ''cast their vote on the overall outlook.''\<close>

definition vote_prompt :: "string \<Rightarrow> string \<Rightarrow> string" where
  \<open>vote_prompt country_code recent_discussion =
     ''Based on our complete discussion about '' @ country_code @ '':\<newline>\<newline>''
     @ recent_discussion
     @ ''\<newline>\<newline>Cast your final vote on the overall outlook/mood.\<newline>''
     @ ''\<newline>Respond in this exact format:\<newline>Vote: [Happy/Neutral/Sad]\<newline>''
     @ ''Confidence: [0-100]\<newline>Reasoning: [Your explanation in ''
     @ ''1-2 sentences based on your expertise]''\<close>

definition vote_statement :: "(real \<Rightarrow> real) \<Rightarrow> Vote \<Rightarrow> string" where
  \<open>vote_statement rnd vote =
     ''I vote '' @ vote_mood vote @ '' with ''
     @ show_int (py_int (rnd (confidence vote * 100))) @ ''% confidence. '' @ reasoning vote\<close>

fun voting_experts ::
  "'w completion \<Rightarrow> (real \<Rightarrow> real) \<Rightarrow> string \<Rightarrow> string list \<Rightarrow> Vote list \<Rightarrow> 'w panel
     \<Rightarrow> (py_error + Vote list) \<times> 'w panel"
where
  \<comment> \<open>The loop \<^verbatim>\<open>for role in self.expert_roles\<close> of \<^verbatim>\<open>_conduct_voting\<close>, on \<^verbatim>\<open>votes\<close>.\<close>
  "voting_experts llm rnd prompt [] votes s = (Inr votes, s)"
| "voting_experts llm rnd prompt (role # roles) votes s =
     (case agent_respond llm role prompt s of
        (Inl e, s1) \<Rightarrow> (Inl e, s1)
      | (Inr response, s1) \<Rightarrow>
          let vote = parse_vote rnd role response
          in voting_experts llm rnd prompt roles (votes @ [vote])
               (add_transcript role (vote_statement rnd vote) None s1))"

definition conduct_voting ::
  "'w completion \<Rightarrow> (real \<Rightarrow> real) \<Rightarrow> string \<Rightarrow> 'w panel \<Rightarrow> (py_error + Vote list) \<times> 'w panel"
where
  "conduct_voting llm rnd country_code s =
     (let s1 = add_transcript ''Moderator'' moderator_call None s;
          recent_discussion = get_recent_discussion 15 s1
      in voting_experts llm rnd (vote_prompt country_code recent_discussion)
           (expert_roles s1) [] s1)"

definition conclude_prompt :: "string \<Rightarrow> string \<Rightarrow> string \<Rightarrow> real \<Rightarrow> string" where
  \<open>conclude_prompt country_code recent_discussion mood score =
     ''Our expert panel has completed their analysis of '' @ country_code
     @ ''.\<newline>\<newline>Discussion highlights:\<newline>'' @ recent_discussion
     @ ''\<newline>\<newline>Final assessment: '' @ upper mood @ '' (Score: ''
     @ format_1f score @ ''/100)\<newline>\<newline>As moderator, provide a concluding ''
     @ ''statement that:\<newline>1. Summarizes the key findings from ''
     @ ''all experts\<newline>2. Explains the final verdict and what ''
     @ ''it means\<newline>3. Provides balanced perspective on strengths ''
     @ ''and challenges\<newline>4. Ends with an insightful closing thought\<newline>''
     @ ''\<newline>Keep it comprehensive but concise (4-5 sentences).''\<close>

definition moderator_conclude ::
  "'w completion \<Rightarrow> string \<Rightarrow> string \<Rightarrow> real \<Rightarrow> 'w panel \<Rightarrow> (py_error + string) \<times> 'w panel"
where
  "moderator_conclude llm country_code mood score s =
     (case agent_respond llm ''moderator''
             (conclude_prompt country_code (get_recent_discussion 12 s) mood score) s of
        (Inl e, s1) \<Rightarrow> (Inl e, s1)
      | (Inr conclusion, s1) \<Rightarrow>
          (Inr conclusion, add_transcript ''Moderator'' conclusion None s1))"

section \<open>The discussion run\<close>

function debate_loop ::
  "'w completion \<Rightarrow> string \<Rightarrow> string \<Rightarrow> int \<Rightarrow> int \<Rightarrow> 'w panel \<Rightarrow> (py_error + int) \<times> 'w panel"
where
  \<comment> \<open>The loop \<^verbatim>\<open>while round_num <= max_rounds\<close> of \<^verbatim>\<open>start_discussion\<close>; the value is
      \<^verbatim>\<open>round_num\<close> when the loop is left.\<close>
  "debate_loop llm country_code topic max_rounds round_num s =
     (if round_num \<le> max_rounds then
        (case moderator_decide_followup llm country_code topic round_num s of
           (Inl e, s1) \<Rightarrow> (Inl e, s1)
         | (Inr (should_continue, target_experts), s1) \<Rightarrow>
             if \<not> should_continue then (Inr round_num, s1)
             else
               (case conduct_dynamic_debate_round llm country_code topic round_num
                       target_experts s1 of
                  (Inl e, s2) \<Rightarrow> (Inl e, s2)
                | (Inr u, s2) \<Rightarrow>
                    debate_loop llm country_code topic max_rounds (round_num + 1) s2))
      else (Inr round_num, s))"
  by pat_completeness auto
termination
  by (relation "measure (\<lambda>(llm, country_code, topic, max_rounds, round_num, s).
        nat (max_rounds + 1 - round_num))") auto

declare debate_loop.simps [simp del]

record PanelResult =
  country_code :: string
  topic :: string
  final_mood :: string
  final_score :: real
  introduction :: string
  conclusion :: string
  discussion_date :: string
  total_turns :: nat
  debate_rounds :: int
  analyses :: "ExpertAnalysis list"
  votes :: "Vote list"
  transcripts :: "Transcript list"

definition start_discussion ::
  "'w completion \<Rightarrow> (real \<Rightarrow> real) \<Rightarrow> string \<Rightarrow> string \<Rightarrow> string \<Rightarrow> country_data option \<Rightarrow> int
     \<Rightarrow> 'w panel \<Rightarrow> (py_error + PanelResult) \<times> 'w panel"
where
  \<comment> \<open>\<open>today\<close> is \<^verbatim>\<open>date.today().isoformat()\<close>, read from the clock.\<close>
  "start_discussion llm rnd today cc tp data max_rounds s =
     (let s0 = s\<lparr>self_transcripts := [], self_analyses := [], self_turn_order := 0\<rparr>;
          context = build_context cc data
      in case moderator_introduce llm cc tp context s0 of
           (Inl e, s1) \<Rightarrow> (Inl e, s1)
         | (Inr intro, s1) \<Rightarrow>
      (case collect_round_analyses llm cc tp context 1 True s1 of
           (Inl e, s2) \<Rightarrow> (Inl e, s2)
         | (Inr u, s2) \<Rightarrow>
      (case debate_loop llm cc tp max_rounds 2 s2 of
           (Inl e, s3) \<Rightarrow> (Inl e, s3)
         | (Inr round_num, s3) \<Rightarrow>
      let actual_rounds = round_num - 1
      in (case conduct_voting llm rnd cc s3 of
           (Inl e, s4) \<Rightarrow> (Inl e, s4)
         | (Inr vs, s4) \<Rightarrow>
      (case calculate_final_mood rnd vs of
           Inl e \<Rightarrow> (Inl e, s4)
         | Inr (mood, score) \<Rightarrow>
      (case moderator_conclude llm cc mood score s4 of
           (Inl e, s5) \<Rightarrow> (Inl e, s5)
         | (Inr concl, s5) \<Rightarrow>
             (Inr \<lparr>country_code = cc, topic = tp, final_mood = mood, final_score = score,
                   introduction = intro, conclusion = concl, discussion_date = today,
                   total_turns = length (self_transcripts s5), debate_rounds = actual_rounds,
                   analyses = self_analyses s5, votes = vs,
                   transcripts = self_transcripts s5\<rparr>, s5)))))))"

section \<open>Vocabulary for the decoder properties\<close>

text \<open>
  The following definitions name what the properties talk about: which lines carry a label,
  the value of a line (the text after its first colon), and the lines the vote loop gets
  to process before a \<^verbatim>\<open>float()\<close> failure ends it.
\<close>

definition line_value :: "string \<Rightarrow> string" where
  "line_value line = tl (dropWhile (\<lambda>x. x \<noteq> CHR '':'') line)"

definition is_vote_line :: "string \<Rightarrow> bool" where
  "is_vote_line line = startswith (strip (lower line)) ''vote:''"

definition is_confidence_line :: "string \<Rightarrow> bool" where
  "is_confidence_line line = startswith (strip (lower line)) ''confidence:''"

definition is_reasoning_line :: "string \<Rightarrow> bool" where
  "is_reasoning_line line = startswith (strip (lower line)) ''reasoning:''"

definition mood_of_value :: "string \<Rightarrow> string" where
  "mood_of_value v =
     (if py_in ''happy'' (lower (strip v)) then ''happy''
      else if py_in ''sad'' (lower (strip v)) then ''sad'' else ''neutral'')"

definition number_of_value :: "string \<Rightarrow> real option" where
  "number_of_value v = py_float (filter (\<lambda>c. py_isdigit c \<or> c = CHR ''.'') (strip v))"

definition confidence_fails :: "string \<Rightarrow> bool" where
  \<comment> \<open>The line makes \<^verbatim>\<open>float(...)\<close> raise \<^verbatim>\<open>ValueError\<close>.\<close>
  "confidence_fails line = (is_confidence_line line \<and> number_of_value (line_value line) = None)"

definition normalise :: "(real \<Rightarrow> real) \<Rightarrow> real \<Rightarrow> real" where
  "normalise rnd x = rnd (min 100 (max 0 (rnd x)) / 100)"

definition processed :: "string list \<Rightarrow> string list" where
  \<comment> \<open>The lines before the first one that raises.\<close>
  "processed ls = takeWhile (\<lambda>l. \<not> confidence_fails l) ls"

definition decisive_vote_line :: "string \<Rightarrow> string option" where
  \<comment> \<open>The last \<^verbatim>\<open>Vote:\<close> line among the processed lines.\<close>
  "decisive_vote_line response =
     (let vs = filter is_vote_line (processed (split_on CHR ''\<newline>'' response))
      in if vs = [] then None else Some (last vs))"

definition decisive_confidence_line :: "string \<Rightarrow> string option" where
  \<comment> \<open>The last \<^verbatim>\<open>Confidence:\<close> line among the processed lines.\<close>
  "decisive_confidence_line response =
     (let cs = filter is_confidence_line (processed (split_on CHR ''\<newline>'' response))
      in if cs = [] then None else Some (last cs))"

definition valid_vote :: "Vote \<Rightarrow> bool" where
  "valid_vote v =
     (vote_mood v \<in> {''happy'', ''neutral'', ''sad''} \<and> 0 \<le> confidence v \<and> confidence v \<le> 1)"

definition anchor :: "string \<Rightarrow> real" where
  \<comment> \<open>The numeric anchor of a mood, as the specification words it.\<close>
  "anchor m = (if m = ''happy'' then 100 else if m = ''neutral'' then 50 else 0)"

definition keeps_unit_interval :: "(real \<Rightarrow> real) \<Rightarrow> bool" where
  \<comment> \<open>The rounding maps \<open>[0,1]\<close> into itself, as the identity and round-to-nearest do.\<close>
  "keeps_unit_interval rnd = (\<forall>x. 0 \<le> x \<and> x \<le> 1 \<longrightarrow> 0 \<le> rnd x \<and> rnd x \<le> 1)"

definition sign_preserving :: "(real \<Rightarrow> real) \<Rightarrow> bool" where
  \<comment> \<open>The rounding maps zero to zero and keeps non-negative numbers non-negative, as
      round-to-nearest does.\<close>
  "sign_preserving rnd = (rnd 0 = 0 \<and> (\<forall>x. 0 \<le> x \<longrightarrow> 0 \<le> rnd x))"

definition float_sum :: "(real \<Rightarrow> real) \<Rightarrow> real list \<Rightarrow> real" where
  \<comment> \<open>The sum accumulated from 0, from left to right, every addition rounded.\<close>
  "float_sum rnd xs = foldl (\<lambda>acc x. rnd (acc + x)) 0 xs"

definition is_continue_line :: "string \<Rightarrow> bool" where
  "is_continue_line line = startswith (strip (lower line)) ''continue:''"

definition is_target_line :: "string \<Rightarrow> bool" where
  "is_target_line line = startswith (strip (lower line)) ''target experts:''"

definition is_reason_line :: "string \<Rightarrow> bool" where
  "is_reason_line line = startswith (strip (lower line)) ''reason:''"

definition mentions :: "string \<Rightarrow> string \<Rightarrow> bool" where
  \<comment> \<open>Bidirectional case-insensitive containment of a token and a role.\<close>
  "mentions token role = (py_in (lower token) (lower role) \<or> py_in (lower role) (lower token))"

definition mentioned_in :: "string \<Rightarrow> string \<Rightarrow> bool" where
  \<comment> \<open>Some comma-separated, trimmed token of the value mentions the role.\<close>
  "mentioned_in v role = list_ex (\<lambda>token. mentions token role) (map strip (split_on CHR '','' (strip v)))"

definition said_yes :: "string list \<Rightarrow> bool" where
  \<comment> \<open>The last \<^verbatim>\<open>Continue:\<close> line of the lines, if any, contains \<^verbatim>\<open>yes\<close>.\<close>
  "said_yes ls =
     (filter is_continue_line ls \<noteq> []
      \<and> py_in ''yes'' (lower (strip (line_value (last (filter is_continue_line ls))))))"

fun dedup :: "'a list \<Rightarrow> 'a list" where
  \<comment> \<open>Duplicates removed, the first occurrence of each element kept.\<close>
  "dedup [] = []"
| "dedup (x # xs) = x # dedup (filter (\<lambda>y. y \<noteq> x) xs)"

definition spec_route_line ::
  "string list \<Rightarrow> bool \<times> string list \<Rightarrow> string \<Rightarrow> bool \<times> string list"
where
  \<comment> \<open>What one line of the moderator's text does to \<open>(continue, targets)\<close>, in the words of
      the specification; the decoder of the source is compared with it.\<close>
  "spec_route_line roster st line =
     (case st of (go_on, targets) \<Rightarrow>
      let v = lower (strip (line_value line))
      in if is_continue_line line then (py_in ''yes'' v, targets)
         else if is_target_line line then
           (if py_in ''none'' v then (False, [])
            else if py_in ''all'' v then (go_on, roster)
            else (go_on,
                  targets @ dedup (filter (\<lambda>role. mentioned_in (line_value line) role
                                                   \<and> role \<notin> set targets) roster)))
         else (go_on, targets))"

definition log_ok :: "'w panel \<Rightarrow> bool" where
  \<comment> \<open>The counter equals the number of turns, and the turns are numbered \<open>1, 2, \<dots>\<close> in order.\<close>
  "log_ok s =
     (self_turn_order s = length (self_transcripts s)
      \<and> map turn_order (self_transcripts s) = [1..<Suc (length (self_transcripts s))])"

definition ready :: "'w panel \<Rightarrow> bool" where
  \<comment> \<open>The moderator and every role of the roster have an agent, as the constructor arranges.\<close>
  "ready s =
     (agents s ''moderator'' \<noteq> None \<and> list_all (\<lambda>role. agents s role \<noteq> None) (expert_roles s))"

definition follows :: "'w panel \<Rightarrow> 'w panel \<Rightarrow> bool" where
  \<comment> \<open>What every phase keeps: roster, agents, and a well-numbered log.\<close>
  "follows s s' =
     (expert_roles s' = expert_roles s \<and> agents s' = agents s \<and> (log_ok s \<longrightarrow> log_ok s'))"

definition reset :: "'w panel \<Rightarrow> 'w panel" where
  \<comment> \<open>The first three assignments of \<^verbatim>\<open>start_discussion\<close>.\<close>
  "reset s = s\<lparr>self_transcripts := [], self_analyses := [], self_turn_order := 0\<rparr>"

definition failing_llm :: "unit completion" where
  \<comment> \<open>An example capability: every call fails.\<close>
  "failing_llm w agent prompt = (None, w)"

definition scripted_llm :: "unit completion" where
  \<comment> \<open>An example capability: the moderator always asks to continue, the experts vote.\<close>
  "scripted_llm w agent prompt =
     (if agent_role agent = ''Moderator'' then Some ''Continue: Yes''
      else Some ''Vote: happy\<newline>Confidence: 7'', w)"

section \<open>Facts about the string operations and the vote loop\<close>

lemma lower_char_colon: "lower_char c = CHR '':'' \<longleftrightarrow> c = CHR '':''"
proof -
  have "of_char (char_of (of_char c + 32 :: nat)) = (of_char c + 32 :: nat) mod 256"
    by simp
  have *: "(of_char (lower_char c) :: nat) =
        (if (65 \<le> (of_char c :: nat) \<and> (of_char c :: nat) \<le> 90) \<or> (192 \<le> (of_char c :: nat) \<and> (of_char c :: nat) \<le> 222 \<and> (of_char c :: nat) \<noteq> 215)
         then (of_char c + 32) mod 256 else of_char c)"
    by (simp add: lower_char_def Let_def)
  have c: "(of_char (CHR '':'') :: nat) = 58" by simp
  show ?thesis
  proof
    assume a: "lower_char c = CHR '':''"
    then have "(of_char (lower_char c) :: nat) = 58" by simp
    with * have "(of_char c :: nat) = 58" by (auto split: if_splits)
    then have "(of_char c :: nat) = of_char (CHR '':'')" by simp
    then show "c = CHR '':''" by (simp only: of_char_eq_iff)
  next
    assume "c = CHR '':''"
    then show "lower_char c = CHR '':''" by (simp add: lower_char_def)
  qed
qed

lemma colon_in_lower: "CHR '':'' \<in> set (lower s) \<longleftrightarrow> CHR '':'' \<in> set s"
proof (induction s)
  case Nil
  then show ?case by (simp add: lower_def)
next
  case (Cons c s)
  have "CHR '':'' = lower_char c \<longleftrightarrow> CHR '':'' = c"
    using lower_char_colon[of c] by auto
  with Cons show ?case by (simp add: lower_def)
qed

lemma set_strip: "set (strip s) \<subseteq> set s"
proof -
  have "set (strip s) \<subseteq> set (rev (dropWhile py_isspace s))"
    unfolding strip_def using set_dropWhileD by fastforce
  also have "\<dots> \<subseteq> set s" using set_dropWhileD by fastforce
  finally show ?thesis .
qed

lemma startswith_set: "startswith s p \<Longrightarrow> set p \<subseteq> set s"
  unfolding startswith_def by (metis set_take_subset)

lemma label_has_colon:
  assumes "startswith (strip (lower line)) p" "CHR '':'' \<in> set p"
  shows "py_index (split_once CHR '':'' line) 1 = Inr (line_value line)"
proof -
  from assms have "CHR '':'' \<in> set (strip (lower line))" using startswith_set by blast
  then have "CHR '':'' \<in> set line" using set_strip colon_in_lower by blast
  then have "dropWhile (\<lambda>x. x \<noteq> CHR '':'') line \<noteq> []" by (simp add: dropWhile_eq_Nil_conv)
  then show ?thesis
    by (cases "dropWhile (\<lambda>x. x \<noteq> CHR '':'') line") (simp_all add: split_once_def py_index_def line_value_def)
qed

lemma startswith_hd: "startswith s (c # p) \<Longrightarrow> s \<noteq> [] \<and> hd s = c"
  by (cases s) (auto simp: startswith_def)

lemma vote_not_confidence: "is_vote_line l \<Longrightarrow> \<not> is_confidence_line l"
proof
  assume "is_vote_line l" "is_confidence_line l"
  then have "hd (strip (lower l)) = CHR ''v''" "hd (strip (lower l)) = CHR ''c''"
    unfolding is_vote_line_def is_confidence_line_def using startswith_hd by blast+
  then show False by simp
qed

lemma parse_vote_line_cases:
  "parse_vote_line rnd l (m, c, r) =
     (if is_vote_line l then Inr (mood_of_value (line_value l), c, r)
      else if is_confidence_line l then
        (case number_of_value (line_value l) of
           None \<Rightarrow> Inl ValueError
         | Some x \<Rightarrow> Inr (m, normalise rnd x, r))
      else if is_reasoning_line l then Inr (m, c, strip (line_value l))
      else Inr (m, c, r))"
proof -
  have v: "startswith (strip (lower l)) ''vote:'' \<Longrightarrow>
      py_index (split_once CHR '':'' l) (Suc 0) = Inr (line_value l)"
    using label_has_colon[of l "''vote:''"] by simp
  have c: "startswith (strip (lower l)) ''confidence:'' \<Longrightarrow>
      py_index (split_once CHR '':'' l) (Suc 0) = Inr (line_value l)"
    using label_has_colon[of l "''confidence:''"] by simp
  have r: "startswith (strip (lower l)) ''reasoning:'' \<Longrightarrow>
      py_index (split_once CHR '':'' l) (Suc 0) = Inr (line_value l)"
    using label_has_colon[of l "''reasoning:''"] by simp
  show ?thesis
    unfolding parse_vote_line_def is_vote_line_def is_confidence_line_def is_reasoning_line_def
      mood_of_value_def number_of_value_def normalise_def Let_def
    using v c r by (simp split: option.splits)
qed

lemma reasoning_not_vote: "is_reasoning_line l \<Longrightarrow> \<not> is_vote_line l"
proof
  assume "is_reasoning_line l" "is_vote_line l"
  then have "hd (strip (lower l)) = CHR ''r''" "hd (strip (lower l)) = CHR ''v''"
    unfolding is_vote_line_def is_reasoning_line_def using startswith_hd by blast+
  then show False by simp
qed

lemma reasoning_not_confidence: "is_reasoning_line l \<Longrightarrow> \<not> is_confidence_line l"
proof
  assume "is_reasoning_line l" "is_confidence_line l"
  then have "hd (strip (lower l)) = CHR ''r''" "hd (strip (lower l)) = CHR ''c''"
    unfolding is_confidence_line_def is_reasoning_line_def using startswith_hd by blast+
  then show False by simp
qed

lemma parse_vote_lines_char:
  "parse_vote_lines rnd ls (m, c, r) =
     ((if filter is_vote_line (processed ls) = [] then m
       else mood_of_value (line_value (last (filter is_vote_line (processed ls)))),
       if filter is_confidence_line (processed ls) = [] then c
       else normalise rnd (the (number_of_value (line_value (last (filter is_confidence_line (processed ls)))))),
       if filter is_reasoning_line (processed ls) = [] then r
       else strip (line_value (last (filter is_reasoning_line (processed ls))))),
      if \<exists>l \<in> set ls. confidence_fails l then Some ValueError else None)"
proof (induction ls arbitrary: m c r)
  case Nil
  show ?case by (simp add: processed_def)
next
  case (Cons l ls)
  consider (vote) "is_vote_line l"
    | (conf_ok) x where "\<not> is_vote_line l" "is_confidence_line l" "number_of_value (line_value l) = Some x"
    | (conf_bad) "\<not> is_vote_line l" "is_confidence_line l" "number_of_value (line_value l) = None"
    | (reas) "\<not> is_vote_line l" "\<not> is_confidence_line l" "is_reasoning_line l"
    | (other) "\<not> is_vote_line l" "\<not> is_confidence_line l" "\<not> is_reasoning_line l"
    by (cases "number_of_value (line_value l)") auto
  then show ?case
  proof cases
    case vote
    then have nf: "\<not> confidence_fails l" "\<not> is_confidence_line l" "\<not> is_reasoning_line l"
      using vote_not_confidence reasoning_not_vote by (auto simp: confidence_fails_def)
    have p: "processed (l # ls) = l # processed ls" using nf by (simp add: processed_def)
    show ?thesis
      unfolding parse_vote_lines.simps parse_vote_line_cases p
      using vote nf by (simp add: Cons.IH)
  next
    case conf_ok
    then have nf: "\<not> confidence_fails l" "\<not> is_reasoning_line l"
      using reasoning_not_confidence by (auto simp: confidence_fails_def)
    have p: "processed (l # ls) = l # processed ls" using nf by (simp add: processed_def)
    show ?thesis
      unfolding parse_vote_lines.simps parse_vote_line_cases p
      using conf_ok nf by (simp add: Cons.IH)
  next
    case conf_bad
    then have f: "confidence_fails l" by (simp add: confidence_fails_def)
    have p: "processed (l # ls) = []" using f by (simp add: processed_def)
    show ?thesis
      unfolding parse_vote_lines.simps parse_vote_line_cases p
      using conf_bad f by simp
  next
    case reas
    then have nf: "\<not> confidence_fails l" by (simp add: confidence_fails_def)
    have p: "processed (l # ls) = l # processed ls" using nf by (simp add: processed_def)
    show ?thesis
      unfolding parse_vote_lines.simps parse_vote_line_cases p
      using reas nf by (simp add: Cons.IH)
  next
    case other
    then have nf: "\<not> confidence_fails l" by (simp add: confidence_fails_def)
    have p: "processed (l # ls) = l # processed ls" using nf by (simp add: processed_def)
    show ?thesis
      unfolding parse_vote_lines.simps parse_vote_line_cases p
      using other nf by (simp add: Cons.IH)
  qed
qed

lemma processed_all: "\<forall>l \<in> set ls. \<not> confidence_fails l \<Longrightarrow> processed ls = ls"
  by (simp add: processed_def)

lemma processed_ok: "l \<in> set (processed ls) \<Longrightarrow> \<not> confidence_fails l"
  unfolding processed_def by (auto dest: set_takeWhileD)

lemma processed_idem: "processed (processed ls) = processed ls"
  by (rule processed_all) (simp add: processed_ok)

lemma decisive_number:
  assumes "l \<in> set (filter is_confidence_line (processed ls))"
  shows "\<exists>x. number_of_value (line_value l) = Some x"
proof -
  from assms have "is_confidence_line l" "\<not> confidence_fails l"
    using processed_ok by auto
  then show ?thesis by (auto simp: confidence_fails_def)
qed

lemma parse_vote_fields:
  "vote_mood (parse_vote rnd role response) =
     (if filter is_vote_line (processed (split_on CHR ''\<newline>'' response)) = [] then ''neutral''
      else mood_of_value (line_value (last (filter is_vote_line (processed (split_on CHR ''\<newline>'' response))))))"
  "confidence (parse_vote rnd role response) =
     (if filter is_confidence_line (processed (split_on CHR ''\<newline>'' response)) = [] then 1 / 2
      else normalise rnd (the (number_of_value (line_value (last (filter is_confidence_line (processed (split_on CHR ''\<newline>'' response))))))))"
  "expert_role (parse_vote rnd role response) = role"
  "\<exists>l \<in> set (split_on CHR ''\<newline>'' response). confidence_fails l \<Longrightarrow>
     reasoning (parse_vote rnd role response) = response"
  by (simp_all add: parse_vote_def parse_vote_lines_char Let_def)

lemma normalise_range:
  assumes "\<forall>x. 0 \<le> x \<and> x \<le> 1 \<longrightarrow> 0 \<le> rnd x \<and> rnd x \<le> 1"
  shows "0 \<le> normalise rnd x \<and> normalise rnd x \<le> 1"
proof -
  have "0 \<le> min 100 (max 0 (rnd x)) / 100 \<and> min 100 (max 0 (rnd x)) / 100 \<le> 1" by auto
  with assms show ?thesis unfolding normalise_def by blast
qed

lemma processed_confidence_lines:
  "filter is_confidence_line (processed ls) =
     takeWhile (\<lambda>l. number_of_value (line_value l) \<noteq> None) (filter is_confidence_line ls)"
  unfolding processed_def
  by (induction ls) (auto simp: confidence_fails_def)

lemma decisive_confidence_line_eq:
  "decisive_confidence_line response =
     (let cs = takeWhile (\<lambda>l. number_of_value (line_value l) \<noteq> None)
                 (filter is_confidence_line (split_on CHR ''\<newline>'' response))
      in if cs = [] then None else Some (last cs))"
  by (simp add: decisive_confidence_line_def processed_confidence_lines)

section \<open>Facts about the score aggregator\<close>

lemma mood_values_anchor:
  "m \<in> {''happy'', ''neutral'', ''sad''} \<Longrightarrow> mood_values m = Some (anchor m)"
  by (auto simp: mood_values_def anchor_def)

section \<open>Facts about the routing decoder\<close>

lemma continue_not_target: "is_continue_line l \<Longrightarrow> \<not> is_target_line l"
proof
  assume "is_continue_line l" "is_target_line l"
  then have "hd (strip (lower l)) = CHR ''c''" "hd (strip (lower l)) = CHR ''t''"
    unfolding is_continue_line_def is_target_line_def using startswith_hd by blast+
  then show False by simp
qed

lemma route_line_cases:
  "route_line roster l (c, t) =
     (if is_continue_line l then Inr (py_in ''yes'' (lower (strip (line_value l))), t)
      else if is_target_line l then
        (if py_in ''none'' (lower (strip (line_value l))) then Inr (False, [])
         else if py_in ''all'' (lower (strip (line_value l))) then Inr (c, roster)
         else Inr (c, match_experts roster (map strip (split_on CHR '','' (strip (line_value l)))) t))
      else Inr (c, t))"
proof -
  have v: "startswith (strip (lower l)) ''continue:'' \<Longrightarrow>
      py_index (split_once CHR '':'' l) (Suc 0) = Inr (line_value l)"
    using label_has_colon[of l "''continue:''"] by simp
  have c: "startswith (strip (lower l)) ''target experts:'' \<Longrightarrow>
      py_index (split_once CHR '':'' l) (Suc 0) = Inr (line_value l)"
    using label_has_colon[of l "''target experts:''"] by simp
  have r: "startswith (strip (lower l)) ''reason:'' \<Longrightarrow>
      py_index (split_once CHR '':'' l) (Suc 0) = Inr (line_value l)"
    using label_has_colon[of l "''reason:''"] by simp
  show ?thesis
    unfolding route_line_def is_continue_line_def is_target_line_def Let_def
    using v c r by simp
qed

lemma match_mentioned_eq:
  "match_mentioned e ms t =
     (if list_ex (\<lambda>m. mentions m e) ms \<and> e \<notin> set t then t @ [e] else t)"
  by (induction ms) (auto simp: mentions_def)

lemma match_experts_set:
  "set (match_experts roster ms t) = set t \<union> {r \<in> set roster. list_ex (\<lambda>m. mentions m r) ms}"
  by (induction roster arbitrary: t) (auto simp: match_mentioned_eq)

lemma match_experts_distinct:
  "distinct t \<Longrightarrow> distinct (match_experts roster ms t)"
  by (induction roster arbitrary: t) (auto simp: match_mentioned_eq)

lemma match_experts_filter:
  "distinct roster \<Longrightarrow> set t \<inter> set roster = {} \<Longrightarrow>
   match_experts roster ms t = t @ filter (\<lambda>r. list_ex (\<lambda>m. mentions m r) ms) roster"
proof (induction roster arbitrary: t)
  case Nil
  then show ?case by simp
next
  case (Cons e roster)
  then have e: "e \<notin> set t" "e \<notin> set roster" "distinct roster" by auto
  let ?t = "match_mentioned e ms t"
  have "set ?t \<inter> set roster = {}"
    using Cons.prems e by (auto simp: match_mentioned_eq)
  with Cons.IH[OF e(3)] have "match_experts roster ms ?t =
      ?t @ filter (\<lambda>r. list_ex (\<lambda>m. mentions m r) ms) roster" by blast
  then show ?case using e by (simp add: match_mentioned_eq)
qed

lemma route_lines_append:
  "route_lines roster (xs @ ys) st =
     (case route_lines roster xs st of
        (st', None) \<Rightarrow> route_lines roster ys st'
      | (st', Some e) \<Rightarrow> (st', Some e))"
  by (induction xs arbitrary: st) (auto split: sum.splits)

lemma route_lines_no_target:
  "\<forall>l \<in> set ls. \<not> is_target_line l \<Longrightarrow>
   route_lines roster ls (c, t) =
     ((if filter is_continue_line ls = [] then c else said_yes ls, t), None)"
proof (induction ls arbitrary: c)
  case Nil
  then show ?case by simp
next
  case (Cons l ls)
  then have nt: "\<not> is_target_line l" and rest: "\<forall>l \<in> set ls. \<not> is_target_line l" by auto
  show ?case
  proof (cases "is_continue_line l")
    case True
    then show ?thesis
      using Cons.IH[OF rest] by (simp add: route_line_cases said_yes_def)
  next
    case False
    then show ?thesis
      using nt Cons.IH[OF rest] by (simp add: route_line_cases said_yes_def)
  qed
qed

lemma route_lines_never_raise: "snd (route_lines roster ls st) = None"
proof (induction ls arbitrary: st)
  case Nil
  then show ?case by simp
next
  case (Cons l ls)
  obtain c t where st: "st = (c, t)" by (cases st)
  show ?case unfolding st using Cons.IH
    by (simp add: route_line_cases)
qed

lemma decide_followup_fst: "decide_followup roster response =
   fst (route_lines roster (split_on CHR ''\<newline>'' response) (False, []))"
proof -
  obtain st e where r: "route_lines roster (split_on CHR ''\<newline>'' response) (False, []) = (st, e)"
    by (cases "route_lines roster (split_on CHR ''\<newline>'' response) (False, [])")
  with route_lines_never_raise[of roster "split_on CHR ''\<newline>'' response" "(False, [])"]
  have "e = None" by simp
  with r show ?thesis by (simp add: decide_followup_def)
qed

lemma route_lines_around_target:
  assumes "is_target_line tline" "\<forall>l \<in> set (pre @ post). \<not> is_target_line l"
  shows "fst (route_lines roster (pre @ tline # post) (False, [])) =
     (if py_in ''none'' (lower (strip (line_value tline)))
      then (if filter is_continue_line post = [] then False else said_yes post, [])
      else (if filter is_continue_line post = [] then said_yes pre else said_yes post,
            if py_in ''all'' (lower (strip (line_value tline))) then roster
            else match_experts roster (map strip (split_on CHR '','' (strip (line_value tline)))) []))"
proof -
  from assms have pre: "\<forall>l \<in> set pre. \<not> is_target_line l"
    and post: "\<forall>l \<in> set post. \<not> is_target_line l" by auto
  have nc: "\<not> is_continue_line tline" using assms(1) continue_not_target by blast
  have p: "route_lines roster pre (False, []) =
      ((if filter is_continue_line pre = [] then False else said_yes pre, []), None)"
    by (rule route_lines_no_target[OF pre])
  have sy: "(if filter is_continue_line pre = [] then False else said_yes pre) = said_yes pre"
    by (simp add: said_yes_def)
  show ?thesis
    unfolding route_lines_append p sy
    using nc assms(1) route_lines_no_target[OF post]
    by (simp add: route_line_cases)
qed

lemma said_yes_append:
  "said_yes (pre @ post) = (if filter is_continue_line post = [] then said_yes pre else said_yes post)"
  by (simp add: said_yes_def)

lemma match_experts_dedup:
  "match_experts roster ms t =
     t @ dedup (filter (\<lambda>r. list_ex (\<lambda>m. mentions m r) ms \<and> r \<notin> set t) roster)"
proof (induction roster arbitrary: t)
  case Nil
  show ?case by simp
next
  case (Cons e roster)
  show ?case
  proof (cases "list_ex (\<lambda>m. mentions m e) ms \<and> e \<notin> set t")
    case True
    then have m: "match_mentioned e ms t = t @ [e]" by (simp add: match_mentioned_eq)
    have "filter (\<lambda>r. list_ex (\<lambda>m. mentions m r) ms \<and> r \<notin> set (t @ [e])) roster =
          filter (\<lambda>y. y \<noteq> e) (filter (\<lambda>r. list_ex (\<lambda>m. mentions m r) ms \<and> r \<notin> set t) roster)"
      by (auto intro: filter_cong)
    with True show ?thesis by (simp add: m Cons.IH)
  next
    case False
    then have m: "match_mentioned e ms t = t" by (auto simp: match_mentioned_eq)
    from False show ?thesis by (auto simp: m Cons.IH)
  qed
qed

lemma route_line_spec:
  "route_line roster l st = Inr (spec_route_line roster st l)"
proof -
  obtain c t where st: "st = (c, t)" by (cases st)
  show ?thesis
    unfolding st route_line_cases spec_route_line_def
    by (simp add: Let_def match_experts_dedup mentioned_in_def)
qed

lemma route_lines_fold:
  "route_lines roster ls st = (foldl (spec_route_line roster) st ls, None)"
  by (induction ls arbitrary: st) (simp_all add: route_line_spec)

lemma decide_followup_fold:
  "decide_followup roster response =
     foldl (spec_route_line roster) (False, []) (split_on CHR ''\<newline>'' response)"
  by (simp add: decide_followup_def route_lines_fold)

lemma fold_no_target:
  "\<forall>l \<in> set ls. \<not> is_target_line l \<Longrightarrow>
   foldl (spec_route_line roster) (c, t) ls =
     (if filter is_continue_line ls = [] then c else said_yes ls, t)"
  using route_lines_no_target[of ls roster c t] by (simp add: route_lines_fold)

lemma said_yes_none: "filter is_continue_line ls = [] \<Longrightarrow> \<not> said_yes ls"
  by (simp add: said_yes_def)

lemma last_target_line:
  assumes "is_target_line tline" "\<forall>l \<in> set post. \<not> is_target_line l"
  shows "foldl (spec_route_line roster) st (pre @ tline # post) =
     (if py_in ''none'' (lower (strip (line_value tline))) then (said_yes post, [])
      else (if filter is_continue_line post = []
            then fst (foldl (spec_route_line roster) st pre) else said_yes post,
            if py_in ''all'' (lower (strip (line_value tline))) then roster
            else snd (spec_route_line roster (foldl (spec_route_line roster) st pre) tline)))"
proof -
  obtain c t where p: "foldl (spec_route_line roster) st pre = (c, t)"
    by (cases "foldl (spec_route_line roster) st pre")
  have nc: "\<not> is_continue_line tline" using assms(1) continue_not_target by blast
  obtain c' t' where q: "spec_route_line roster (c, t) tline = (c', t')"
    by (cases "spec_route_line roster (c, t) tline")
  have c': "c' = (if py_in ''none'' (lower (strip (line_value tline))) then False else c)"
    and t': "py_in ''none'' (lower (strip (line_value tline))) \<Longrightarrow> t' = []"
            "\<not> py_in ''none'' (lower (strip (line_value tline))) \<Longrightarrow>
             py_in ''all'' (lower (strip (line_value tline))) \<Longrightarrow> t' = roster"
    using q nc assms(1) by (auto simp: spec_route_line_def Let_def split: if_splits)
  show ?thesis
    using c' t' said_yes_none[of post]
    by (auto simp: p q fold_no_target[OF assms(2)])
qed

section \<open>Facts about the phases and the run\<close>

lemma follows_refl: "follows s s"
  by (simp add: follows_def)

lemma follows_trans: "follows s s1 \<Longrightarrow> follows s1 s2 \<Longrightarrow> follows s s2"
  by (simp add: follows_def)

lemma log_ok_add_transcript: "log_ok s \<Longrightarrow> log_ok (add_transcript who txt rn s)"
  by (simp add: log_ok_def add_transcript_def)

lemma follows_add_transcript: "follows s (add_transcript who txt rn s)"
  by (simp add: follows_def log_ok_add_transcript) (simp add: add_transcript_def)

lemma follows_add_analysis: "follows s (add_analysis role txt rn s)"
  by (simp add: follows_def log_ok_def add_analysis_def)

lemma follows_ready: "follows s s' \<Longrightarrow> ready s \<Longrightarrow> ready s'"
  by (simp add: follows_def ready_def)

lemma agent_respond_follows: "agent_respond llm key p s = (res, s') \<Longrightarrow> follows s s'"
  by (auto simp: agent_respond_def follows_def log_ok_def split: option.splits prod.splits)

lemma agent_respond_total:
  "agents s key \<noteq> None \<Longrightarrow> agent_respond llm key p s = (res, s') \<Longrightarrow> \<exists>r. res = Inr r"
  by (auto simp: agent_respond_def split: option.splits prod.splits)

lemma moderator_introduce_follows:
  "moderator_introduce llm cc tp ctx s = (res, s') \<Longrightarrow> follows s s'"
  unfolding moderator_introduce_def
  by (auto split: prod.splits sum.splits
      intro: follows_trans[OF agent_respond_follows follows_add_transcript]
      dest: agent_respond_follows)

lemma moderator_introduce_total:
  assumes "ready s" "moderator_introduce llm cc tp ctx s = (res, s')"
  shows "\<exists>r. res = Inr r"
proof -
  obtain r1 s1 where a: "agent_respond llm ''moderator'' (introduce_prompt cc tp ctx) s = (r1, s1)"
    by (cases "agent_respond llm ''moderator'' (introduce_prompt cc tp ctx) s")
  from assms(1) have "agents s ''moderator'' \<noteq> None" by (simp add: ready_def)
  then obtain r where "r1 = Inr r" using a agent_respond_total by blast
  with assms(2) a show ?thesis by (auto simp: moderator_introduce_def)
qed

lemma collect_experts_follows:
  "collect_experts llm cc tp ctx rn is_first roles s = (res, s') \<Longrightarrow> follows s s'"
proof (induction roles arbitrary: s)
  case Nil
  then show ?case by (simp add: follows_refl)
next
  case (Cons role roles)
  let ?p = "if is_first then opening_prompt role cc ctx tp
            else round_prompt rn cc (get_recent_discussion 8 s) role"
  obtain r1 s1 where a: "agent_respond llm role ?p s = (r1, s1)"
    by (cases "agent_respond llm role ?p s")
  have f1: "follows s s1" using a by (rule agent_respond_follows)
  show ?case
  proof (cases r1)
    case (Inl e)
    with Cons.prems a f1 show ?thesis by (simp add: Let_def)
  next
    case (Inr ans)
    let ?s2 = "add_transcript role ans (Some rn) (add_analysis role ans rn s1)"
    have f2: "follows s1 ?s2"
      by (rule follows_trans[OF follows_add_analysis follows_add_transcript])
    from Cons.prems a Inr
    have "collect_experts llm cc tp ctx rn is_first roles ?s2 = (res, s')"
      by (simp add: Let_def)
    then have "follows ?s2 s'" by (rule Cons.IH)
    with f1 f2 show ?thesis by (blast intro: follows_trans)
  qed
qed

lemma collect_experts_total:
  "list_all (\<lambda>role. agents s role \<noteq> None) roles \<Longrightarrow>
   collect_experts llm cc tp ctx rn is_first roles s = (res, s') \<Longrightarrow> res = Inr ()"
proof (induction roles arbitrary: s)
  case Nil
  then show ?case by simp
next
  case (Cons role roles)
  let ?p = "if is_first then opening_prompt role cc ctx tp
            else round_prompt rn cc (get_recent_discussion 8 s) role"
  obtain r1 s1 where a: "agent_respond llm role ?p s = (r1, s1)"
    by (cases "agent_respond llm role ?p s")
  have f1: "follows s s1" using a by (rule agent_respond_follows)
  from Cons.prems(1) have "agents s role \<noteq> None" by simp
  then obtain ans where r1: "r1 = Inr ans" using a agent_respond_total by blast
  let ?s2 = "add_transcript role ans (Some rn) (add_analysis role ans rn s1)"
  have f2: "follows s ?s2"
    using f1 follows_add_analysis follows_add_transcript by (blast intro: follows_trans)
  then have ag: "list_all (\<lambda>role. agents ?s2 role \<noteq> None) roles"
    using Cons.prems(1) by (simp add: follows_def)
  from Cons.prems(2) a r1
  have "collect_experts llm cc tp ctx rn is_first roles ?s2 = (res, s')"
    by (simp add: Let_def)
  with ag show ?case by (rule Cons.IH)
qed

lemma collect_round_analyses_follows:
  "collect_round_analyses llm cc tp ctx rn is_first s = (res, s') \<Longrightarrow> follows s s'"
  unfolding collect_round_analyses_def
  by (auto split: sum.splits if_splits simp: follows_refl
      dest!: collect_experts_follows
      intro: follows_trans[OF follows_add_transcript])

lemma collect_round_analyses_total:
  assumes "ready s" "expert_roles s \<noteq> []"
    and "collect_round_analyses llm cc tp ctx rn is_first s = (res, s')"
  shows "res = Inr ()"
proof -
  obtain q where q: "(if is_first
            then (case py_index (expert_roles s) 0 of
                    Inl e \<Rightarrow> Inl e
                  | Inr first_role \<Rightarrow> Inr (first_question first_role cc))
            else Inr later_question) = (Inr q :: py_error + string)"
    using assms(2) by (cases is_first) (auto simp: py_index_def)
  let ?s1 = "add_transcript ''Moderator'' q (Some rn) s"
  have "list_all (\<lambda>role. agents ?s1 role \<noteq> None) (expert_roles s)"
    using assms(1) follows_add_transcript[of s "''Moderator''" q "Some rn"]
    by (simp add: ready_def follows_def)
  moreover have "collect_experts llm cc tp ctx rn is_first (expert_roles s) ?s1 = (res, s')"
    using assms(3) unfolding collect_round_analyses_def q by simp
  ultimately show ?thesis by (rule collect_experts_total)
qed

lemma moderator_decide_followup_follows:
  "moderator_decide_followup llm cc tp rn s = (res, s') \<Longrightarrow> follows s s'"
  unfolding moderator_decide_followup_def
  by (auto split: prod.splits sum.splits dest: agent_respond_follows)

lemma route_lines_within_roster:
  "set (snd st) \<subseteq> set roster \<Longrightarrow> set (snd (fst (route_lines roster ls st))) \<subseteq> set roster"
proof (induction ls arbitrary: st)
  case Nil
  then show ?case by simp
next
  case (Cons l ls)
  obtain c t where st: "st = (c, t)" by (cases st)
  have "set t \<subseteq> set roster" using Cons.prems by (simp add: st)
  then have "\<exists>c' t'. route_line roster l (c, t) = Inr (c', t') \<and> set t' \<subseteq> set roster"
    unfolding route_line_cases by (auto simp: match_experts_set)
  then obtain c' t' where r: "route_line roster l (c, t) = Inr (c', t')"
    and t': "set t' \<subseteq> set roster" by blast
  from Cons.IH[of "(c', t')"] t' show ?case by (simp add: st r)
qed

lemma decide_followup_within_roster:
  "set (snd (decide_followup roster response)) \<subseteq> set roster"
  unfolding decide_followup_fst by (rule route_lines_within_roster) simp

lemma moderator_decide_followup_total:
  assumes "ready s" "moderator_decide_followup llm cc tp rn s = (res, s')"
  shows "\<exists>c t. res = Inr (c, t) \<and> set t \<subseteq> set (expert_roles s)"
proof -
  let ?p = "followup_prompt cc (get_recent_discussion 12 s) (expert_roles s)"
  obtain r1 s1 where a: "agent_respond llm ''moderator'' ?p s = (r1, s1)"
    by (cases "agent_respond llm ''moderator'' ?p s")
  from assms(1) have "agents s ''moderator'' \<noteq> None" by (simp add: ready_def)
  then obtain r where r: "r1 = Inr r" using a agent_respond_total by blast
  have e: "expert_roles s1 = expert_roles s"
    using agent_respond_follows[OF a] by (simp add: follows_def)
  from assms(2) a r have "res = Inr (decide_followup (expert_roles s) r)"
    by (auto simp: moderator_decide_followup_def e)
  then show ?thesis
    using decide_followup_within_roster[of "expert_roles s" r]
    by (cases "decide_followup (expert_roles s) r") auto
qed

lemma debate_experts_follows:
  "debate_experts llm rn q roles s = (res, s') \<Longrightarrow> follows s s'"
proof (induction roles arbitrary: s)
  case Nil
  then show ?case by (simp add: follows_refl)
next
  case (Cons role roles)
  let ?p = "answer_prompt rn role q (get_recent_discussion 8 s)"
  obtain r1 s1 where a: "agent_respond llm role ?p s = (r1, s1)"
    by (cases "agent_respond llm role ?p s")
  have f1: "follows s s1" using a by (rule agent_respond_follows)
  show ?case
  proof (cases r1)
    case (Inl e)
    with Cons.prems a f1 show ?thesis by simp
  next
    case (Inr ans)
    let ?s2 = "add_transcript role ans (Some rn) (add_analysis role ans rn s1)"
    have f2: "follows s1 ?s2"
      by (rule follows_trans[OF follows_add_analysis follows_add_transcript])
    from Cons.prems a Inr
    have "debate_experts llm rn q roles ?s2 = (res, s')" by simp
    then have "follows ?s2 s'" by (rule Cons.IH)
    with f1 f2 show ?thesis by (blast intro: follows_trans)
  qed
qed

lemma debate_experts_total:
  "list_all (\<lambda>role. agents s role \<noteq> None) roles \<Longrightarrow>
   debate_experts llm rn q roles s = (res, s') \<Longrightarrow>
   res = Inr ()
   \<and> map a_expert_role (self_analyses s') = map a_expert_role (self_analyses s) @ roles
   \<and> map speaker (self_transcripts s') = map speaker (self_transcripts s) @ roles"
proof (induction roles arbitrary: s)
  case Nil
  then show ?case by simp
next
  case (Cons role roles)
  let ?p = "answer_prompt rn role q (get_recent_discussion 8 s)"
  obtain r1 s1 where a: "agent_respond llm role ?p s = (r1, s1)"
    by (cases "agent_respond llm role ?p s")
  have f1: "follows s s1" using a by (rule agent_respond_follows)
  have k1: "self_analyses s1 = self_analyses s" "self_transcripts s1 = self_transcripts s"
    using a by (auto simp: agent_respond_def split: option.splits prod.splits)
  from Cons.prems(1) have "agents s role \<noteq> None" by simp
  then obtain ans where r1: "r1 = Inr ans" using a agent_respond_total by blast
  let ?s2 = "add_transcript role ans (Some rn) (add_analysis role ans rn s1)"
  have f2: "follows s ?s2"
    using f1 follows_add_analysis follows_add_transcript by (blast intro: follows_trans)
  then have ag: "list_all (\<lambda>role. agents ?s2 role \<noteq> None) roles"
    using Cons.prems(1) by (simp add: follows_def)
  have k2: "map a_expert_role (self_analyses ?s2) = map a_expert_role (self_analyses s) @ [role]"
           "map speaker (self_transcripts ?s2) = map speaker (self_transcripts s) @ [role]"
    by (simp_all add: add_transcript_def add_analysis_def k1)
  from Cons.prems(2) a r1
  have "debate_experts llm rn q roles ?s2 = (res, s')" by simp
  from Cons.IH[OF ag this] show ?case by (simp add: k2)
qed

lemma conduct_dynamic_debate_round_follows:
  "conduct_dynamic_debate_round llm cc tp rn targets s = (res, s') \<Longrightarrow> follows s s'"
  unfolding conduct_dynamic_debate_round_def Let_def
  by (auto split: prod.splits sum.splits
      dest!: agent_respond_follows debate_experts_follows
      intro: follows_trans[OF _ follows_trans[OF follows_add_transcript]])

lemma conduct_dynamic_debate_round_total:
  assumes "ready s" "set targets \<subseteq> set (expert_roles s)"
    and "conduct_dynamic_debate_round llm cc tp rn targets s = (res, s')"
  shows "res = Inr ()
     \<and> map a_expert_role (self_analyses s') = map a_expert_role (self_analyses s)
          @ (if targets = [] then expert_roles s else targets)
     \<and> map speaker (self_transcripts s') = map speaker (self_transcripts s)
          @ ''Moderator'' # (if targets = [] then expert_roles s else targets)"
proof -
  let ?ts = "if targets = [] then expert_roles s else targets"
  let ?recent = "get_recent_discussion 10 s"
  let ?p = "if length ?ts = length (expert_roles s)
             then question_all_prompt cc ?recent
             else question_some_prompt cc ?recent (join '', '' ?ts)"
  obtain r1 s1 where a: "agent_respond llm ''moderator'' ?p s = (r1, s1)"
    by (cases "agent_respond llm ''moderator'' ?p s")
  from assms(1) have "agents s ''moderator'' \<noteq> None" by (simp add: ready_def)
  then obtain q where r1: "r1 = Inr q" using a agent_respond_total by blast
  have k1: "self_analyses s1 = self_analyses s" "self_transcripts s1 = self_transcripts s"
    using a by (auto simp: agent_respond_def split: option.splits prod.splits)
  let ?s2 = "add_transcript ''Moderator'' q (Some rn) s1"
  have f: "follows s ?s2"
    using agent_respond_follows[OF a] follows_add_transcript by (blast intro: follows_trans)
  have "set ?ts \<subseteq> set (expert_roles s)" using assms(2) by simp
  then have "list_all (\<lambda>role. agents s role \<noteq> None) ?ts"
    using assms(1) by (auto simp: ready_def list_all_iff)
  then have ag: "list_all (\<lambda>role. agents ?s2 role \<noteq> None) ?ts"
    using f by (simp add: follows_def)
  have k2: "map a_expert_role (self_analyses ?s2) = map a_expert_role (self_analyses s)"
           "map speaker (self_transcripts ?s2) = map speaker (self_transcripts s) @ [''Moderator'']"
    by (simp_all add: add_transcript_def k1)
  from assms(3) a r1 have "debate_experts llm rn q ?ts ?s2 = (res, s')"
    by (simp add: conduct_dynamic_debate_round_def Let_def)
  from debate_experts_total[OF ag this] show ?thesis by (simp add: k2)
qed

lemma parse_vote_mood_valid:
  "vote_mood (parse_vote rnd role response) \<in> {''happy'', ''neutral'', ''sad''}"
  by (simp add: parse_vote_fields(1) mood_of_value_def)

lemma voting_experts_follows:
  "voting_experts llm rnd p roles acc s = (res, s') \<Longrightarrow> follows s s'"
proof (induction roles arbitrary: s acc)
  case Nil
  then show ?case by (simp add: follows_refl)
next
  case (Cons role roles)
  obtain r1 s1 where a: "agent_respond llm role p s = (r1, s1)"
    by (cases "agent_respond llm role p s")
  have f1: "follows s s1" using a by (rule agent_respond_follows)
  show ?case
  proof (cases r1)
    case (Inl e)
    with Cons.prems a f1 show ?thesis by simp
  next
    case (Inr response)
    let ?v = "parse_vote rnd role response"
    let ?s2 = "add_transcript role (vote_statement rnd ?v) None s1"
    from Cons.prems a Inr
    have "voting_experts llm rnd p roles (acc @ [?v]) ?s2 = (res, s')"
      by (simp add: Let_def)
    then have "follows ?s2 s'" by (rule Cons.IH)
    with f1 follows_add_transcript show ?thesis by (blast intro: follows_trans)
  qed
qed

lemma voting_experts_total:
  "list_all (\<lambda>role. agents s role \<noteq> None) roles \<Longrightarrow>
   list_all (\<lambda>v. vote_mood v \<in> {''happy'', ''neutral'', ''sad''}) acc \<Longrightarrow>
   voting_experts llm rnd p roles acc s = (res, s') \<Longrightarrow>
   \<exists>vs. res = Inr vs \<and> list_all (\<lambda>v. vote_mood v \<in> {''happy'', ''neutral'', ''sad''}) vs
        \<and> map expert_role vs = map expert_role acc @ roles"
proof (induction roles arbitrary: s acc)
  case Nil
  then show ?case by auto
next
  case (Cons role roles)
  obtain r1 s1 where a: "agent_respond llm role p s = (r1, s1)"
    by (cases "agent_respond llm role p s")
  from Cons.prems(1) have "agents s role \<noteq> None" by simp
  then obtain response where r1: "r1 = Inr response" using a agent_respond_total by blast
  let ?v = "parse_vote rnd role response"
  let ?s2 = "add_transcript role (vote_statement rnd ?v) None s1"
  have f: "follows s ?s2"
    using agent_respond_follows[OF a] follows_add_transcript by (blast intro: follows_trans)
  then have ag: "list_all (\<lambda>role. agents ?s2 role \<noteq> None) roles"
    using Cons.prems(1) by (simp add: follows_def)
  have acc: "list_all (\<lambda>v. vote_mood v \<in> {''happy'', ''neutral'', ''sad''}) (acc @ [?v])"
    using Cons.prems(2) parse_vote_mood_valid[of rnd role response] by simp
  from Cons.prems(3) a r1
  have "voting_experts llm rnd p roles (acc @ [?v]) ?s2 = (res, s')"
    by (simp add: Let_def)
  from Cons.IH[OF ag acc this] show ?case by (simp add: parse_vote_fields(3))
qed

lemma conduct_voting_follows:
  "conduct_voting llm rnd cc s = (res, s') \<Longrightarrow> follows s s'"
  unfolding conduct_voting_def Let_def
  by (blast intro: follows_trans[OF follows_add_transcript] dest: voting_experts_follows)

lemma conduct_voting_total:
  assumes "ready s" "conduct_voting llm rnd cc s = (res, s')"
  shows "\<exists>vs. res = Inr vs \<and> list_all (\<lambda>v. vote_mood v \<in> {''happy'', ''neutral'', ''sad''}) vs
        \<and> map expert_role vs = expert_roles s"
proof -
  let ?s1 = "add_transcript ''Moderator'' moderator_call None s"
  have f: "follows s ?s1" by (rule follows_add_transcript)
  then have e: "expert_roles ?s1 = expert_roles s" by (simp add: follows_def)
  have ag: "list_all (\<lambda>role. agents ?s1 role \<noteq> None) (expert_roles s)"
    using assms(1) f by (simp add: ready_def follows_def)
  have "voting_experts llm rnd (vote_prompt cc (get_recent_discussion 15 ?s1))
          (expert_roles s) [] ?s1 = (res, s')"
    using assms(2) unfolding conduct_voting_def Let_def e by simp
  from voting_experts_total[OF ag _ this] show ?thesis by simp
qed

lemma tally_total:
  "list_all (\<lambda>v. vote_mood v \<in> {''happy'', ''neutral'', ''sad''}) vs \<Longrightarrow>
   \<exists>r. tally rnd vs acc = Inr r"
proof (induction vs arbitrary: acc)
  case Nil
  then show ?case by simp
next
  case (Cons v vs)
  obtain ts tw where acc: "acc = (ts, tw)" by (cases acc)
  from Cons.prems have "mood_values (vote_mood v) = Some (anchor (vote_mood v))"
    by (simp add: mood_values_anchor)
  with Cons show ?case by (simp add: acc Let_def)
qed

lemma calculate_final_mood_total:
  assumes "list_all (\<lambda>v. vote_mood v \<in> {''happy'', ''neutral'', ''sad''}) vs"
  shows "\<exists>m sc. calculate_final_mood rnd vs = Inr (m, sc)"
proof -
  from tally_total[OF assms] obtain ts tw where "tally rnd vs (0, 0) = Inr (ts, tw)"
    by fastforce
  then show ?thesis by (simp add: calculate_final_mood_def Let_def)
qed

lemma moderator_conclude_follows:
  "moderator_conclude llm cc m sc s = (res, s') \<Longrightarrow> follows s s'"
  unfolding moderator_conclude_def
  by (auto split: prod.splits sum.splits
      intro: follows_trans[OF agent_respond_follows follows_add_transcript]
      dest: agent_respond_follows)

lemma moderator_conclude_total:
  assumes "ready s" "moderator_conclude llm cc m sc s = (res, s')"
  shows "\<exists>r. res = Inr r"
proof -
  let ?p = "conclude_prompt cc (get_recent_discussion 12 s) m sc"
  obtain r1 s1 where a: "agent_respond llm ''moderator'' ?p s = (r1, s1)"
    by (cases "agent_respond llm ''moderator'' ?p s")
  from assms(1) have "agents s ''moderator'' \<noteq> None" by (simp add: ready_def)
  then obtain r where "r1 = Inr r" using a agent_respond_total by blast
  with assms(2) a show ?thesis by (auto simp: moderator_conclude_def)
qed

lemma debate_loop_props:
  "debate_loop llm cc tp mx k s = (res, s') \<Longrightarrow>
   follows s s'
   \<and> (\<forall>n. res = Inr n \<longrightarrow> k \<le> n \<and> n \<le> max k (mx + 1))
   \<and> (ready s \<longrightarrow> (\<exists>n. res = Inr n))"
proof (induction "nat (mx + 1 - k)" arbitrary: k s)
  case 0
  then have "\<not> k \<le> mx" by simp
  with "0.prems" show ?case
    by (subst (asm) debate_loop.simps) (auto simp: follows_refl)
next
  case (Suc m)
  then have le: "k \<le> mx" by simp
  obtain r1 s1 where d: "moderator_decide_followup llm cc tp k s = (r1, s1)"
    by (cases "moderator_decide_followup llm cc tp k s")
  have f1: "follows s s1" using d by (rule moderator_decide_followup_follows)
  show ?case
  proof (cases r1)
    case (Inl e)
    with Suc.prems le d have "res = Inl e" "s' = s1"
      by (subst (asm) debate_loop.simps, simp)+
    moreover have "ready s \<Longrightarrow> False"
      using moderator_decide_followup_total[OF _ d] Inl by auto
    ultimately show ?thesis using f1 by auto
  next
    case (Inr ct)
    obtain c t where ct: "ct = (c, t)" by (cases ct)
    show ?thesis
    proof (cases c)
      case False
      with Suc.prems le d Inr ct have "res = Inr k" "s' = s1"
        by (subst (asm) debate_loop.simps, simp)+
      then show ?thesis using f1 by auto
    next
      case True
      obtain r2 s2 where c2: "conduct_dynamic_debate_round llm cc tp k t s1 = (r2, s2)"
        by (cases "conduct_dynamic_debate_round llm cc tp k t s1")
      have f2: "follows s1 s2" using c2 by (rule conduct_dynamic_debate_round_follows)
      have sub: "ready s \<Longrightarrow> set t \<subseteq> set (expert_roles s1)"
        using moderator_decide_followup_total[OF _ d] Inr ct f1 by (auto simp: follows_def)
      show ?thesis
      proof (cases r2)
        case (Inl e)
        with Suc.prems le d Inr ct True c2 have "res = Inl e" "s' = s2"
          by (subst (asm) debate_loop.simps, simp)+
        moreover have "ready s \<Longrightarrow> False"
          using conduct_dynamic_debate_round_total[OF follows_ready[OF f1] sub c2] Inl by auto
        ultimately show ?thesis using f1 f2 by (auto intro: follows_trans)
      next
        case (Inr u)
        with Suc.prems le d \<open>r1 = Inr ct\<close> ct True c2
        have rec: "debate_loop llm cc tp mx (k + 1) s2 = (res, s')"
          by (subst (asm) debate_loop.simps) simp
        have "m = nat (mx + 1 - (k + 1))" using Suc.hyps(2) by simp
        from Suc.hyps(1)[OF this rec]
        have ih: "follows s2 s'"
          "\<forall>n. res = Inr n \<longrightarrow> k + 1 \<le> n \<and> n \<le> max (k + 1) (mx + 1)"
          "ready s2 \<longrightarrow> (\<exists>n. res = Inr n)" by blast+
        have "follows s s'" using f1 f2 ih(1) by (blast intro: follows_trans)
        moreover have "\<forall>n. res = Inr n \<longrightarrow> k \<le> n \<and> n \<le> max k (mx + 1)"
          using ih(2) le by auto
        moreover have "ready s \<longrightarrow> (\<exists>n. res = Inr n)"
          using ih(3) f1 f2 follows_ready by blast
        ultimately show ?thesis by blast
      qed
    qed
  qed
qed

lemma debate_loop_stop:
  "k \<le> mx \<Longrightarrow> moderator_decide_followup llm cc tp k s = (Inr (False, t), s1) \<Longrightarrow>
   debate_loop llm cc tp mx k s = (Inr k, s1)"
  by (subst debate_loop.simps) simp

lemma debate_loop_continue:
  "k \<le> mx \<Longrightarrow> moderator_decide_followup llm cc tp k s = (Inr (True, t), s1) \<Longrightarrow>
   debate_loop llm cc tp mx k s =
     (case conduct_dynamic_debate_round llm cc tp k t s1 of
        (Inl e, s2) \<Rightarrow> (Inl e, s2)
      | (Inr u, s2) \<Rightarrow> debate_loop llm cc tp mx (k + 1) s2)"
  by (subst debate_loop.simps) simp

lemma debate_loop_skip:
  "\<not> k \<le> mx \<Longrightarrow> debate_loop llm cc tp mx k s = (Inr k, s)"
  by (subst debate_loop.simps) simp

lemma reset_props: "log_ok (reset s)" "expert_roles (reset s) = expert_roles s"
  "agents (reset s) = agents s" "ready s \<Longrightarrow> ready (reset s)"
  by (simp_all add: reset_def log_ok_def ready_def)

lemma start_discussion_steps:
  assumes "start_discussion llm rnd today cc tp data mx s = (Inr r, s')"
  shows "\<exists>intro s1 s2 n s3 vs s4 m sc concl.
      moderator_introduce llm cc tp (build_context cc data) (reset s) = (Inr intro, s1)
    \<and> collect_round_analyses llm cc tp (build_context cc data) 1 True s1 = (Inr (), s2)
    \<and> debate_loop llm cc tp mx 2 s2 = (Inr n, s3)
    \<and> conduct_voting llm rnd cc s3 = (Inr vs, s4)
    \<and> calculate_final_mood rnd vs = Inr (m, sc)
    \<and> moderator_conclude llm cc m sc s4 = (Inr concl, s')
    \<and> r = \<lparr>country_code = cc, topic = tp, final_mood = m, final_score = sc,
             introduction = intro, conclusion = concl, discussion_date = today,
             total_turns = length (self_transcripts s'), debate_rounds = n - 1,
             analyses = self_analyses s', votes = vs, transcripts = self_transcripts s'\<rparr>"
  using assms unfolding start_discussion_def reset_def[symmetric] Let_def
  by (auto split: prod.splits sum.splits simp del: debate_loop.simps)

lemma start_discussion_result:
  assumes "start_discussion llm rnd today cc tp data mx s = (Inr r, s')"
  shows "log_ok s' \<and> transcripts r = self_transcripts s'
       \<and> total_turns r = length (self_transcripts s')
       \<and> 1 \<le> debate_rounds r \<and> debate_rounds r \<le> max 1 mx"
proof -
  from start_discussion_steps[OF assms] obtain intro s1 s2 n s3 vs s4 m sc concl where
    a: "moderator_introduce llm cc tp (build_context cc data) (reset s) = (Inr intro, s1)"
    and b: "collect_round_analyses llm cc tp (build_context cc data) 1 True s1 = (Inr (), s2)"
    and c: "debate_loop llm cc tp mx 2 s2 = (Inr n, s3)"
    and d: "conduct_voting llm rnd cc s3 = (Inr vs, s4)"
    and f: "moderator_conclude llm cc m sc s4 = (Inr concl, s')"
    and r: "transcripts r = self_transcripts s'" "total_turns r = length (self_transcripts s')"
           "debate_rounds r = n - 1"
    by fastforce
  have "follows (reset s) s'"
    using moderator_introduce_follows[OF a] collect_round_analyses_follows[OF b]
      debate_loop_props[OF c] conduct_voting_follows[OF d] moderator_conclude_follows[OF f]
    by (blast intro: follows_trans)
  then have "log_ok s'" using reset_props(1)[of s] by (simp add: follows_def)
  moreover have "2 \<le> n \<and> n \<le> max 2 (mx + 1)" using debate_loop_props[OF c] by blast
  ultimately show ?thesis using r by auto
qed

lemma start_discussion_total:
  assumes "ready s" "expert_roles s \<noteq> []"
  shows "\<exists>r s'. start_discussion llm rnd today cc tp data mx s = (Inr r, s')"
proof -
  let ?ctx = "build_context cc data"
  obtain r1 s1 where a: "moderator_introduce llm cc tp ?ctx (reset s) = (r1, s1)"
    by (cases "moderator_introduce llm cc tp ?ctx (reset s)")
  have rd0: "ready (reset s)" using assms(1) by (rule reset_props(4))
  obtain intro where r1: "r1 = Inr intro" using moderator_introduce_total[OF rd0 a] by blast
  have f1: "follows (reset s) s1" using a by (rule moderator_introduce_follows)
  have rd1: "ready s1" using f1 rd0 by (rule follows_ready)
  have ne1: "expert_roles s1 \<noteq> []" using f1 assms(2) by (simp add: follows_def reset_props)
  obtain r2 s2 where b: "collect_round_analyses llm cc tp ?ctx 1 True s1 = (r2, s2)"
    by (cases "collect_round_analyses llm cc tp ?ctx 1 True s1")
  have r2: "r2 = Inr ()" using collect_round_analyses_total[OF rd1 ne1 b] .
  have rd2: "ready s2" using collect_round_analyses_follows[OF b] rd1 by (rule follows_ready)
  obtain r3 s3 where c: "debate_loop llm cc tp mx 2 s2 = (r3, s3)"
    by (cases "debate_loop llm cc tp mx 2 s2")
  from debate_loop_props[OF c] rd2 obtain n where r3: "r3 = Inr n" and f3: "follows s2 s3"
    by blast
  have rd3: "ready s3" using f3 rd2 by (rule follows_ready)
  obtain r4 s4 where d: "conduct_voting llm rnd cc s3 = (r4, s4)"
    by (cases "conduct_voting llm rnd cc s3")
  from conduct_voting_total[OF rd3 d] obtain vs where r4: "r4 = Inr vs"
    and vv: "list_all (\<lambda>v. vote_mood v \<in> {''happy'', ''neutral'', ''sad''}) vs" by blast
  have rd4: "ready s4" using conduct_voting_follows[OF d] rd3 by (rule follows_ready)
  from calculate_final_mood_total[OF vv] obtain m sc where
    e: "calculate_final_mood rnd vs = Inr (m, sc)" by blast
  obtain r5 s5 where f: "moderator_conclude llm cc m sc s4 = (r5, s5)"
    by (cases "moderator_conclude llm cc m sc s4")
  from moderator_conclude_total[OF rd4 f] obtain concl where r5: "r5 = Inr concl" by blast
  show ?thesis
    unfolding start_discussion_def reset_def[symmetric] Let_def
    by (simp add: a r1 b r2 c r3 d r4 e f r5 del: debate_loop.simps)
qed

lemma start_discussion_votes:
  assumes "ready s" "start_discussion llm rnd today cc tp data mx s = (Inr r, s')"
  shows "map expert_role (votes r) = expert_roles s"
proof -
  from start_discussion_steps[OF assms(2)] obtain intro s1 s2 n s3 vs s4 where
    a: "moderator_introduce llm cc tp (build_context cc data) (reset s) = (Inr intro, s1)"
    and b: "collect_round_analyses llm cc tp (build_context cc data) 1 True s1 = (Inr (), s2)"
    and c: "debate_loop llm cc tp mx 2 s2 = (Inr n, s3)"
    and d: "conduct_voting llm rnd cc s3 = (Inr vs, s4)"
    and r: "votes r = vs"
    by fastforce
  have f: "follows (reset s) s3"
    using moderator_introduce_follows[OF a] collect_round_analyses_follows[OF b]
      debate_loop_props[OF c] by (blast intro: follows_trans)
  then have "ready s3" using reset_props(4)[OF assms(1)] by (rule follows_ready)
  from conduct_voting_total[OF this d] have "map expert_role vs = expert_roles s3" by simp
  with f r show ?thesis by (simp add: follows_def reset_props)
qed

lemma start_discussion_empty_roster:
  assumes "expert_roles s = []" "agents s ''moderator'' = Some agent"
  shows "\<exists>s'. start_discussion llm rnd today cc tp data mx s = (Inl IndexError, s')
     \<and> map speaker (self_transcripts s') = [''Moderator'']
     \<and> map turn_order (self_transcripts s') = [1]"
proof -
  let ?ctx = "build_context cc data"
  obtain response w' where
    l: "respond llm agent (introduce_prompt cc tp ?ctx) (world (reset s)) = (response, w')"
    by (cases "respond llm agent (introduce_prompt cc tp ?ctx) (world (reset s))")
  let ?s1 = "add_transcript ''Moderator'' response None ((reset s)\<lparr>world := w'\<rparr>)"
  have a: "moderator_introduce llm cc tp ?ctx (reset s) = (Inr response, ?s1)"
    using assms(2) l by (simp add: moderator_introduce_def agent_respond_def reset_props)
  have e: "expert_roles ?s1 = []"
    using assms(1) by (simp add: add_transcript_def reset_def)
  have b: "collect_round_analyses llm cc tp ?ctx 1 True ?s1 = (Inl IndexError, ?s1)"
    unfolding collect_round_analyses_def e by (simp add: py_index_def)
  have st: "start_discussion llm rnd today cc tp data mx s = (Inl IndexError, ?s1)"
    unfolding start_discussion_def reset_def[symmetric] Let_def a using b
    by (simp del: debate_loop.simps)
  have sp: "map speaker (self_transcripts ?s1) = [''Moderator'']"
    by (simp add: add_transcript_def reset_def)
  have tu: "map turn_order (self_transcripts ?s1) = [1]"
    by (simp add: add_transcript_def reset_def)
  show ?thesis
  proof (intro exI conjI)
    show "start_discussion llm rnd today cc tp data mx s = (Inl IndexError, ?s1)" by (rule st)
    show "map speaker (self_transcripts ?s1) = [''Moderator'']" by (rule sp)
    show "map turn_order (self_transcripts ?s1) = [1]" by (rule tu)
  qed
qed

lemma ready_init_panel: "ready (init_panel mid w)" "expert_roles (init_panel mid w) \<noteq> []"
  by (simp_all add: ready_def init_panel_def expert_instructions_def)
section \<open>Facts about the rounding\<close>

lemma round_half_even_nonneg: "0 \<le> x \<Longrightarrow> 0 \<le> round_half_even x"
proof -
  assume "0 \<le> x"
  then have "0 \<le> \<lfloor>x\<rfloor>" by simp
  then show ?thesis by (simp add: round_half_even_def Let_def)
qed

lemma round_half_even_le:
  assumes "x \<le> of_int N"
  shows "round_half_even x \<le> N"
proof -
  have f: "\<lfloor>x\<rfloor> \<le> N" using assms by (simp add: floor_le_iff)
  show ?thesis
  proof (cases "\<lfloor>x\<rfloor> = N")
    case True
    then have "x - of_int \<lfloor>x\<rfloor> \<le> 0" using assms by simp
    then have "x - of_int \<lfloor>x\<rfloor> < 1 / 2" by simp
    then show ?thesis using True by (simp add: round_half_even_def Let_def)
  next
    case False
    with f have "\<lfloor>x\<rfloor> + 1 \<le> N" by simp
    then show ?thesis by (simp add: round_half_even_def Let_def)
  qed
qed

lemma round_half_even_of_int: "round_half_even (of_int k) = k"
  by (simp add: round_half_even_def)

lemma doublings_le0: "doublings n x \<le> 0"
proof (induction n arbitrary: x)
  case 0
  show ?case by simp
next
  case (Suc n)
  have "doublings n (2 * x) \<le> 0" by (rule Suc.IH)
  then show ?case by simp
qed

lemma doublings_neg: "0 < n \<Longrightarrow> x < 1 \<Longrightarrow> doublings n x \<le> - 1"
proof (cases n)
  case 0
  assume "0 < n" with 0 show ?thesis by simp
next
  case (Suc m)
  assume "x < 1"
  with Suc doublings_le0[of m "2 * x"] show ?thesis by simp
qed

lemma halvings_small: "x < 2 \<Longrightarrow> halvings n x = 0"
  by (cases n) auto

lemma binary64_nonneg: "0 \<le> x \<Longrightarrow> 0 \<le> binary64 x"
proof -
  assume x: "0 \<le> x"
  have "0 \<le> x / 2 powi e" for e :: int using x by simp
  then have "0 \<le> round_half_even (x / 2 powi e)" for e :: int
    by (rule round_half_even_nonneg)
  then show ?thesis by (simp add: binary64_def Let_def)
qed

lemma binary64_one: "binary64 1 = 1"
proof -
  have e: "exponent 1 = 0" by (simp add: exponent_def halvings_small)
  have "(1::real) / 2 powi (- 52) = of_int (2 ^ 52)"
    by (simp add: power_int_minus)
  then have "round_half_even ((1::real) / 2 powi (- 52)) = 2 ^ 52"
    using round_half_even_of_int[of "2 ^ 52"] by simp
  then show ?thesis by (simp add: binary64_def Let_def e power_int_minus)
qed

lemma binary64_le_one:
  assumes "0 \<le> x" "x \<le> 1"
  shows "binary64 x \<le> 1"
proof -
  consider "x = 0" | "x = 1" | "0 < x" "x < 1" using assms by fastforce
  then show ?thesis
  proof cases
    case 1
    then show ?thesis by (simp add: binary64_def)
  next
    case 2
    then show ?thesis by (simp add: binary64_one)
  next
    case 3
    have ax: "\<bar>x\<bar> = x" using 3 by simp
    have "exponent \<bar>x\<bar> = doublings 1022 x" using 3 by (simp add: exponent_def)
    moreover have "doublings 1022 x \<le> - 1" using 3 by (intro doublings_neg) simp_all
    ultimately have neg: "exponent \<bar>x\<bar> - 52 < 0" by simp
    define k where "k = nat (- (exponent \<bar>x\<bar> - 52))"
    have e: "exponent \<bar>x\<bar> - 52 = - int k" using neg by (simp add: k_def)
    have p: "(2::real) powi (- int k) = 1 / 2 ^ k"
      by (simp add: power_int_minus field_simps)
    have "x / (1 / 2 ^ k) \<le> of_int (2 ^ k)" using 3 by (simp add: field_simps)
    then have "round_half_even (x / (1 / 2 ^ k)) \<le> 2 ^ k" by (rule round_half_even_le)
    then have "real_of_int (round_half_even (x / (1 / 2 ^ k))) \<le> 2 ^ k"
      by (metis of_int_le_iff of_int_numeral of_int_power)
    then have "real_of_int (round_half_even (x / (1 / 2 ^ k))) * (1 / 2 ^ k) \<le> 1"
      by (simp add: field_simps)
    moreover have "binary64 x = real_of_int (round_half_even (x / (1 / 2 ^ k))) * (1 / 2 ^ k)"
      using 3 unfolding binary64_def Let_def e p by simp
    ultimately show ?thesis by simp
  qed
qed

lemma keeps_unit_interval_binary64: "keeps_unit_interval binary64"
  unfolding keeps_unit_interval_def using binary64_nonneg binary64_le_one by blast

lemma sign_preserving_binary64: "sign_preserving binary64"
  unfolding sign_preserving_def using binary64_nonneg by (simp add: binary64_def)

lemma tally_sign:
  assumes "sign_preserving rnd" "\<forall>v \<in> set vs. valid_vote v" "0 \<le> ts" "0 \<le> tw"
  shows "\<exists>ts' tw'. tally rnd vs (ts, tw) = Inr (ts', tw') \<and> 0 \<le> ts' \<and> 0 \<le> tw'
     \<and> ((\<forall>v \<in> set vs. confidence v = 0) \<and> tw = 0 \<longrightarrow> tw' = 0)"
  using assms(2-)
proof (induction vs arbitrary: ts tw)
  case Nil
  then show ?case by simp
next
  case (Cons v vs)
  from assms(1) have z: "rnd 0 = 0" and nn: "\<And>x. 0 \<le> x \<Longrightarrow> 0 \<le> rnd x"
    by (simp_all add: sign_preserving_def)
  from Cons.prems have v: "0 \<le> confidence v" "0 \<le> anchor (vote_mood v)"
    and mv: "mood_values (vote_mood v) = Some (anchor (vote_mood v))"
    by (auto simp: valid_vote_def anchor_def mood_values_anchor)
  let ?w = "rnd (anchor (vote_mood v) * confidence v)"
  let ?ts = "rnd (ts + ?w)" and ?tw = "rnd (tw + confidence v)"
  have w: "0 \<le> ?w" using v by (intro nn) simp
  have a: "0 \<le> ?ts" "0 \<le> ?tw" using w v Cons.prems by (auto intro!: nn)
  have rest: "\<forall>v \<in> set vs. valid_vote v" using Cons.prems by simp
  from Cons.IH[OF rest a] obtain ts' tw' where
    r: "tally rnd vs (?ts, ?tw) = Inr (ts', tw')" "0 \<le> ts'" "0 \<le> tw'"
    and zr: "(\<forall>v \<in> set vs. confidence v = 0) \<and> ?tw = 0 \<longrightarrow> tw' = 0" by blast
  have "(\<forall>u \<in> set (v # vs). confidence u = 0) \<and> tw = 0 \<longrightarrow> tw' = 0"
    using zr z by auto
  with r show ?case by (simp add: mv Let_def)
qed

lemma tally_float:
  "\<forall>v \<in> set vs. valid_vote v \<Longrightarrow>
   tally rnd vs (ts, tw) =
     Inr (foldl (\<lambda>acc x. rnd (acc + x)) ts (map (\<lambda>v. rnd (anchor (vote_mood v) * confidence v)) vs),
          foldl (\<lambda>acc x. rnd (acc + x)) tw (map confidence vs))"
proof (induction vs arbitrary: ts tw)
  case Nil
  then show ?case by simp
next
  case (Cons v vs)
  then have "mood_values (vote_mood v) = Some (anchor (vote_mood v))"
    by (simp add: valid_vote_def mood_values_anchor)
  with Cons show ?case by simp
qed

section \<open>Score aggregator properties\<close>

text \<open>
  Claim C1, as amended.  For votes whose moods are happy, neutral or sad and whose
  confidences lie in \<open>[0,1]\<close>, and for every rounding that keeps zero and the sign (the
  doubles do, see \<open>sign_preserving_binary64\<close>), the aggregator returns; it raises nothing.
  The score is \<open>\<Sum>(anchor \<times> confidence) / \<Sum>(confidence)\<close> as floating-point arithmetic
  computes it: each product, each addition to the two running sums (from left to right,
  starting at 0) and the division are rounded.  When the sum of the confidences so computed
  is zero, as it is for the empty list and for confidences that are all zero, the result is
  neutral and 50.  The score is never negative, and the mood is happy iff \<open>score \<ge> 67\<close>,
  neutral iff \<open>34 \<le> score < 67\<close>, sad iff \<open>score < 34\<close>, on the score as computed.  No upper
  bound is stated: rounding can carry the score above 100.
\<close>

theorem calculate_final_mood_spec:
  assumes "sign_preserving rnd" and "\<forall>v \<in> set vs. valid_vote v"
  shows "\<exists>mood score. calculate_final_mood rnd vs = Inr (mood, score)
     \<and> (if float_sum rnd (map confidence vs) = 0 then mood = ''neutral'' \<and> score = 50
         else score = rnd (float_sum rnd (map (\<lambda>v. rnd (anchor (vote_mood v) * confidence v)) vs)
                           / float_sum rnd (map confidence vs)))
     \<and> ((\<forall>v \<in> set vs. confidence v = 0) \<longrightarrow> mood = ''neutral'' \<and> score = 50)
     \<and> 0 \<le> score
     \<and> (mood = ''happy'' \<longleftrightarrow> 67 \<le> score)
     \<and> (mood = ''neutral'' \<longleftrightarrow> 34 \<le> score \<and> score < 67)
     \<and> (mood = ''sad'' \<longleftrightarrow> score < 34)"
proof -
  let ?w = "float_sum rnd (map confidence vs)"
  let ?s = "float_sum rnd (map (\<lambda>v. rnd (anchor (vote_mood v) * confidence v)) vs)"
  have t: "tally rnd vs (0, 0) = Inr (?s, ?w)"
    using tally_float[OF assms(2), of rnd 0 0] by (simp add: float_sum_def)
  from tally_sign[OF assms, of 0 0] t
  have b: "0 \<le> ?s" "0 \<le> ?w" and z: "(\<forall>v \<in> set vs. confidence v = 0) \<longrightarrow> ?w = 0"
    by auto
  from assms(1) have nn: "\<And>x. 0 \<le> x \<Longrightarrow> 0 \<le> rnd x"
    by (simp add: sign_preserving_def)
  show ?thesis
  proof (cases "?w = 0")
    case True
    then show ?thesis by (simp add: calculate_final_mood_def t)
  next
    case False
    with z have nz: "\<not> (\<forall>v \<in> set vs. confidence v = 0)" by blast
    have "0 \<le> rnd (?s / ?w)" using b by (intro nn) simp
    then show ?thesis using False
      unfolding calculate_final_mood_def t by (simp add: Let_def nz)
  qed
qed

theorem calculate_final_mood_spec_witness:
  "sign_preserving binary64
   \<and> valid_vote \<lparr>expert_role = ''Economic Analyst'', vote_mood = ''happy'',
                confidence = binary64 (67 / 100), reasoning = ''growth''\<rparr>
   \<and> valid_vote \<lparr>expert_role = ''Environmental Scientist'', vote_mood = ''sad'',
                confidence = binary64 (33 / 100), reasoning = ''emissions''\<rparr>
   \<and> calculate_final_mood binary64
        [\<lparr>expert_role = ''Economic Analyst'', vote_mood = ''happy'',
          confidence = binary64 (67 / 100), reasoning = ''growth''\<rparr>,
         \<lparr>expert_role = ''Environmental Scientist'', vote_mood = ''sad'',
          confidence = binary64 (33 / 100), reasoning = ''emissions''\<rparr>] = Inr (''happy'', 67)
   \<and> calculate_final_mood binary64
        [\<lparr>expert_role = ''Economic Analyst'', vote_mood = ''happy'',
          confidence = binary64 (66999 / 100000), reasoning = ''growth''\<rparr>,
         \<lparr>expert_role = ''Environmental Scientist'', vote_mood = ''sad'',
          confidence = binary64 (33001 / 100000), reasoning = ''emissions''\<rparr>]
       = Inr (''neutral'', binary64 (66999 / 1000))
   \<and> calculate_final_mood binary64
        [\<lparr>expert_role = ''Economic Analyst'', vote_mood = ''happy'',
          confidence = binary64 (34 / 100), reasoning = ''growth''\<rparr>,
         \<lparr>expert_role = ''Environmental Scientist'', vote_mood = ''sad'',
          confidence = binary64 (66 / 100), reasoning = ''emissions''\<rparr>] = Inr (''neutral'', 34)
   \<and> calculate_final_mood binary64
        [\<lparr>expert_role = ''Economic Analyst'', vote_mood = ''happy'',
          confidence = binary64 (33999 / 100000), reasoning = ''growth''\<rparr>,
         \<lparr>expert_role = ''Environmental Scientist'', vote_mood = ''sad'',
          confidence = binary64 (66001 / 100000), reasoning = ''emissions''\<rparr>]
       = Inr (''sad'', binary64 (33999 / 1000))
   \<and> calculate_final_mood binary64
        [\<lparr>expert_role = ''Economic Analyst'', vote_mood = ''happy'', confidence = 0,
          reasoning = ''growth''\<rparr>] = Inr (''neutral'', 50)
   \<and> calculate_final_mood binary64 [] = Inr (''neutral'', 50)"
proof -
  let ?votes = "[\<lparr>expert_role = ''Economic Analyst'', vote_mood = ''happy'',
                  confidence = binary64 (67 / 100), reasoning = ''growth''\<rparr>,
                \<lparr>expert_role = ''Environmental Scientist'', vote_mood = ''sad'',
                  confidence = binary64 (33 / 100), reasoning = ''emissions''\<rparr>]"
  have v: "valid_vote \<lparr>expert_role = ''Economic Analyst'', vote_mood = ''happy'',
                confidence = binary64 (67 / 100), reasoning = ''growth''\<rparr>"
          "valid_vote \<lparr>expert_role = ''Environmental Scientist'', vote_mood = ''sad'',
                confidence = binary64 (33 / 100), reasoning = ''emissions''\<rparr>"
    by code_simp+
  then have h: "\<forall>v \<in> set ?votes. valid_vote v" by simp
  have s: "float_sum binary64 (map confidence ?votes) = 1"
          "float_sum binary64 (map (\<lambda>v. binary64 (anchor (vote_mood v) * confidence v)) ?votes) = 67"
          "binary64 (67 / 1) = 67"
    by code_simp+
  from calculate_final_mood_spec[OF sign_preserving_binary64 h] obtain mood score where
    r: "calculate_final_mood binary64 ?votes = Inr (mood, score)"
    and sc: "score = 67" and m: "(mood = ''happy'') = (67 \<le> score)"
    unfolding s by auto
  from sc m have "mood = ''happy''" by simp
  with r sc have a: "calculate_final_mood binary64 ?votes = Inr (''happy'', 67)" by simp
  have b: "calculate_final_mood binary64
        [\<lparr>expert_role = ''Economic Analyst'', vote_mood = ''happy'',
          confidence = binary64 (66999 / 100000), reasoning = ''growth''\<rparr>,
         \<lparr>expert_role = ''Environmental Scientist'', vote_mood = ''sad'',
          confidence = binary64 (33001 / 100000), reasoning = ''emissions''\<rparr>]
       = Inr (''neutral'', binary64 (66999 / 1000))"
    by code_simp
  have c: "calculate_final_mood binary64
        [\<lparr>expert_role = ''Economic Analyst'', vote_mood = ''happy'',
          confidence = binary64 (34 / 100), reasoning = ''growth''\<rparr>,
         \<lparr>expert_role = ''Environmental Scientist'', vote_mood = ''sad'',
          confidence = binary64 (66 / 100), reasoning = ''emissions''\<rparr>] = Inr (''neutral'', 34)"
    by code_simp
  have d: "calculate_final_mood binary64
        [\<lparr>expert_role = ''Economic Analyst'', vote_mood = ''happy'',
          confidence = binary64 (33999 / 100000), reasoning = ''growth''\<rparr>,
         \<lparr>expert_role = ''Environmental Scientist'', vote_mood = ''sad'',
          confidence = binary64 (66001 / 100000), reasoning = ''emissions''\<rparr>]
       = Inr (''sad'', binary64 (33999 / 1000))"
    by code_simp
  have e: "calculate_final_mood binary64
        [\<lparr>expert_role = ''Economic Analyst'', vote_mood = ''happy'', confidence = 0,
          reasoning = ''growth''\<rparr>] = Inr (''neutral'', 50)"
    by code_simp
  have f: "calculate_final_mood binary64 [] = Inr (''neutral'', 50)"
    by code_simp
  from sign_preserving_binary64 v a b c d e f show ?thesis by (intro conjI)
qed

text \<open>
  Claim C1 as stated fails: three votes happy with confidence \<^verbatim>\<open>0.07\<close> (what the decoder
  makes of \<^verbatim>\<open>Confidence: 7\<close>) have the quotient 100 in real arithmetic, and the aggregator
  computes \<open>100 + 2\<^sup>-\<^sup>4\<^sup>6\<close>, printed \<^verbatim>\<open>100.00000000000001\<close>, which is above 100.
\<close>

theorem score_above_100_counterexample:
  "valid_vote \<lparr>expert_role = ''Economic Analyst'', vote_mood = ''happy'',
                confidence = binary64 (7 / 100), reasoning = ''growth''\<rparr>
   \<and> parse_vote binary64 ''Economic Analyst'' ''Vote: happy\<newline>Confidence: 7\<newline>Reasoning: growth''
       = \<lparr>expert_role = ''Economic Analyst'', vote_mood = ''happy'',
          confidence = binary64 (7 / 100), reasoning = ''growth''\<rparr>
   \<and> calculate_final_mood binary64
        [\<lparr>expert_role = ''Economic Analyst'', vote_mood = ''happy'',
          confidence = binary64 (7 / 100), reasoning = ''growth''\<rparr>,
         \<lparr>expert_role = ''Economic Analyst'', vote_mood = ''happy'',
          confidence = binary64 (7 / 100), reasoning = ''growth''\<rparr>,
         \<lparr>expert_role = ''Economic Analyst'', vote_mood = ''happy'',
          confidence = binary64 (7 / 100), reasoning = ''growth''\<rparr>]
       = Inr (''happy'', 7036874417766401 / 70368744177664)
   \<and> (100 :: real) < 7036874417766401 / 70368744177664"
proof -
  have a: "valid_vote \<lparr>expert_role = ''Economic Analyst'', vote_mood = ''happy'',
                confidence = binary64 (7 / 100), reasoning = ''growth''\<rparr>"
    by code_simp
  have b: "parse_vote binary64 ''Economic Analyst'' ''Vote: happy\<newline>Confidence: 7\<newline>Reasoning: growth''
       = \<lparr>expert_role = ''Economic Analyst'', vote_mood = ''happy'',
          confidence = binary64 (7 / 100), reasoning = ''growth''\<rparr>"
    by code_simp
  have c: "calculate_final_mood binary64
        [\<lparr>expert_role = ''Economic Analyst'', vote_mood = ''happy'',
          confidence = binary64 (7 / 100), reasoning = ''growth''\<rparr>,
         \<lparr>expert_role = ''Economic Analyst'', vote_mood = ''happy'',
          confidence = binary64 (7 / 100), reasoning = ''growth''\<rparr>,
         \<lparr>expert_role = ''Economic Analyst'', vote_mood = ''happy'',
          confidence = binary64 (7 / 100), reasoning = ''growth''\<rparr>]
       = Inr (''happy'', 7036874417766401 / 70368744177664)"
    by code_simp
  have d: "(100 :: real) < 7036874417766401 / 70368744177664" by simp
  from a b c d show ?thesis by (intro conjI)
qed

section \<open>Vote decoder properties\<close>

text \<open>
  Claim C5, as amended.  The mood is decided by the last \<^verbatim>\<open>Vote:\<close> line among the lines
  the loop processes (those before the first \<^verbatim>\<open>Confidence:\<close> line whose value does not
  parse; all lines when there is none), not by the first one: its value, lower-cased, is
  searched for \<^verbatim>\<open>happy\<close> first and \<^verbatim>\<open>sad\<close> second, so a value with both is happy, a value
  with only \<^verbatim>\<open>sad\<close> is sad, and a value with neither, or no such line, is neutral.
\<close>

theorem parse_vote_mood:
  "vote_mood (parse_vote rnd role response) =
     (case decisive_vote_line response of
        None \<Rightarrow> ''neutral''
      | Some l \<Rightarrow>
          if py_in ''happy'' (lower (strip (line_value l))) then ''happy''
          else if py_in ''sad'' (lower (strip (line_value l))) then ''sad''
          else ''neutral'')"
  by (simp add: parse_vote_fields(1) decisive_vote_line_def mood_of_value_def Let_def)

theorem parse_vote_mood_witness:
  "decisive_vote_line ''Vote: Happy\<newline>Vote: Sad and happy\<newline>Confidence: n/a\<newline>Vote: Sad''
     = Some ''Vote: Sad and happy''
   \<and> vote_mood (parse_vote binary64 ''Economic Analyst''
        ''Vote: Happy\<newline>Vote: Sad and happy\<newline>Confidence: n/a\<newline>Vote: Sad'') = ''happy''"
proof -
  let ?r = "''Vote: Happy\<newline>Vote: Sad and happy\<newline>Confidence: n/a\<newline>Vote: Sad''"
  have d: "decisive_vote_line ?r = Some ''Vote: Sad and happy''" by code_simp
  have h: "py_in ''happy'' (lower (strip (line_value ''Vote: Sad and happy'')))" by code_simp
  show ?thesis using parse_vote_mood[of binary64 "''Economic Analyst''" ?r] d h by simp
qed

text \<open>
  Claim C5 as stated fails: with two \<^verbatim>\<open>Vote:\<close> lines the first one says happy and the
  decoder answers sad, the value of the later line.
\<close>

theorem first_vote_line_counterexample:
  "find is_vote_line (split_on CHR ''\<newline>'' ''Vote: Happy\<newline>Vote: Sad'') = Some ''Vote: Happy''
   \<and> py_in ''happy'' (lower (strip (line_value ''Vote: Happy'')))
   \<and> vote_mood (parse_vote binary64 ''Economic Analyst'' ''Vote: Happy\<newline>Vote: Sad'') = ''sad''"
  by code_simp

text \<open>
  Claim C6, as amended.  The confidence is decided by the last \<^verbatim>\<open>Confidence:\<close> line among
  the lines the loop processes, that is the last of the \<^verbatim>\<open>Confidence:\<close> lines that come
  before the first one whose value does not parse: every character of its value that is
  neither a digit nor a period is removed, the rest is parsed as a number, clamped to
  \<open>[0,100]\<close> and divided by 100.  It is the default \<open>0.5\<close> when no such line is processed:
  when the text has no \<^verbatim>\<open>Confidence:\<close> line, or when the first one does not parse.  It
  always lies in \<open>[0,1]\<close>.  The statement holds for every rounding that keeps \<open>[0,1]\<close>, as
  the doubles do (\<open>keeps_unit_interval_binary64\<close>).
\<close>

theorem parse_vote_confidence:
  assumes "keeps_unit_interval rnd"
  shows "0 \<le> confidence (parse_vote rnd role response)
       \<and> confidence (parse_vote rnd role response) \<le> 1
       \<and> confidence (parse_vote rnd role response) =
            (case decisive_confidence_line response of
               None \<Rightarrow> 1 / 2
             | Some l \<Rightarrow>
                 (case py_float (filter (\<lambda>c. py_isdigit c \<or> c = CHR ''.'') (strip (line_value l))) of
                    None \<Rightarrow> 1 / 2
                  | Some x \<Rightarrow> rnd (min 100 (max 0 (rnd x)) / 100)))
       \<and> decisive_confidence_line response =
            (let cs = takeWhile (\<lambda>l. number_of_value (line_value l) \<noteq> None)
                        (filter is_confidence_line (split_on CHR ''\<newline>'' response))
             in if cs = [] then None else Some (last cs))
       \<and> (filter is_confidence_line (split_on CHR ''\<newline>'' response) = [] \<longrightarrow>
            confidence (parse_vote rnd role response) = 1 / 2)
       \<and> (\<forall>l rest. filter is_confidence_line (split_on CHR ''\<newline>'' response) = l # rest
              \<and> number_of_value (line_value l) = None \<longrightarrow>
            confidence (parse_vote rnd role response) = 1 / 2)"
proof -
  let ?ls = "split_on CHR ''\<newline>'' response"
  let ?cs = "filter is_confidence_line (processed ?ls)"
  let ?c = "confidence (parse_vote rnd role response)"
  have gen: "?c = (case decisive_confidence_line response of
               None \<Rightarrow> 1 / 2
             | Some l \<Rightarrow>
                 (case number_of_value (line_value l) of
                    None \<Rightarrow> 1 / 2
                  | Some x \<Rightarrow> normalise rnd x))"
  proof (cases "?cs = []")
    case True
    then show ?thesis by (simp add: parse_vote_fields(2) decisive_confidence_line_def)
  next
    case False
    then have "last ?cs \<in> set ?cs" by (rule last_in_set)
    then obtain x where "number_of_value (line_value (last ?cs)) = Some x"
      using decisive_number by blast
    with False show ?thesis by (simp add: parse_vote_fields(2) decisive_confidence_line_def)
  qed
  have range: "0 \<le> ?c \<and> ?c \<le> 1"
    unfolding gen using normalise_range[OF assms[unfolded keeps_unit_interval_def]]
    by (auto split: option.splits)
  have absent: "filter is_confidence_line ?ls = [] \<Longrightarrow> ?c = 1 / 2"
    unfolding gen decisive_confidence_line_eq by simp
  have first_fails: "filter is_confidence_line ?ls = l # rest \<Longrightarrow>
      number_of_value (line_value l) = None \<Longrightarrow> ?c = 1 / 2" for l rest
    unfolding gen decisive_confidence_line_eq by simp
  have g: "?c = (case decisive_confidence_line response of
               None \<Rightarrow> 1 / 2
             | Some l \<Rightarrow>
                 (case py_float (filter (\<lambda>c. py_isdigit c \<or> c = CHR ''.'') (strip (line_value l))) of
                    None \<Rightarrow> 1 / 2
                  | Some x \<Rightarrow> rnd (min 100 (max 0 (rnd x)) / 100)))"
    using gen unfolding number_of_value_def normalise_def .
  show ?thesis
    using range g decisive_confidence_line_eq[of response] absent first_fails by blast
qed

theorem parse_vote_confidence_witness:
  "keeps_unit_interval binary64
   \<and> decisive_confidence_line ''Vote: Happy\<newline>Confidence: 85\<newline>Reasoning: strong growth''
       = Some ''Confidence: 85''
   \<and> confidence (parse_vote binary64 ''Economic Analyst''
        ''Vote: Happy\<newline>Confidence: 85\<newline>Reasoning: strong growth'') = binary64 (85 / 100)
   \<and> filter is_confidence_line (split_on CHR ''\<newline>'' ''Vote: Happy'') = []
   \<and> confidence (parse_vote binary64 ''Economic Analyst'' ''Vote: Happy'') = 1 / 2
   \<and> filter is_confidence_line (split_on CHR ''\<newline>'' ''Confidence: high\<newline>Confidence: 85'')
       = [''Confidence: high'', ''Confidence: 85'']
   \<and> number_of_value (line_value ''Confidence: high'') = None
   \<and> confidence (parse_vote binary64 ''Economic Analyst'' ''Confidence: high\<newline>Confidence: 85'')
       = 1 / 2"
proof -
  let ?r = "''Vote: Happy\<newline>Confidence: 85\<newline>Reasoning: strong growth''"
  let ?q = "''Confidence: high\<newline>Confidence: 85''"
  note t = parse_vote_confidence[OF keeps_unit_interval_binary64, of "''Economic Analyst''"]
  have s: "decisive_confidence_line ?r = Some ''Confidence: 85''"
    by code_simp
  have v: "py_float (filter (\<lambda>c. py_isdigit c \<or> c = CHR ''.'') (strip (line_value ''Confidence: 85'')))
             = Some 85"
    by code_simp
  have b: "binary64 85 = 85" by code_simp
  from t[of ?r]
  have "confidence (parse_vote binary64 ''Economic Analyst'' ?r) =
          (case decisive_confidence_line ?r of
               None \<Rightarrow> 1 / 2
             | Some l \<Rightarrow>
                 (case py_float (filter (\<lambda>c. py_isdigit c \<or> c = CHR ''.'') (strip (line_value l))) of
                    None \<Rightarrow> 1 / 2
                  | Some x \<Rightarrow> binary64 (min 100 (max 0 (binary64 x)) / 100)))"
    by (rule conjunct2[THEN conjunct2, THEN conjunct1])
  then have c1: "confidence (parse_vote binary64 ''Economic Analyst'' ?r) = binary64 (85 / 100)"
    unfolding s by (simp add: v b)
  have a0: "filter is_confidence_line (split_on CHR ''\<newline>'' ''Vote: Happy'') = []"
    by code_simp
  from t[of "''Vote: Happy''"] a0
  have c2: "confidence (parse_vote binary64 ''Economic Analyst'' ''Vote: Happy'') = 1 / 2"
    by blast
  have f: "filter is_confidence_line (split_on CHR ''\<newline>'' ?q)
       = [''Confidence: high'', ''Confidence: 85'']"
    by code_simp
  have n: "number_of_value (line_value ''Confidence: high'') = None"
    by code_simp
  from t[of ?q] f n
  have c3: "confidence (parse_vote binary64 ''Economic Analyst'' ?q) = 1 / 2"
    by blast
  from keeps_unit_interval_binary64 s c1 a0 c2 f n c3 show ?thesis by (intro conjI)
qed

text \<open>
  Claim C6 as stated fails for texts with several \<^verbatim>\<open>Confidence:\<close> lines: an unparseable
  line after a parseable one leaves the confidence \<^verbatim>\<open>0.85\<close> of the earlier line, not the
  default, and an unparseable line before a parseable one gives the default although a
  line with the value 85 is there.
\<close>

theorem unparseable_confidence_counterexample:
  "is_confidence_line ''Confidence: high''
   \<and> number_of_value (line_value ''Confidence: high'') = None
   \<and> confidence (parse_vote binary64 ''Economic Analyst'' ''Confidence: 85\<newline>Confidence: high'')
       = binary64 (85 / 100)
   \<and> binary64 (85 / 100) \<noteq> 1 / 2
   \<and> is_confidence_line ''Confidence: 85''
   \<and> number_of_value (line_value ''Confidence: 85'') = Some 85
   \<and> confidence (parse_vote binary64 ''Economic Analyst'' ''Confidence: high\<newline>Confidence: 85'')
       = 1 / 2"
proof -
  have a: "is_confidence_line ''Confidence: high''" by code_simp
  have b: "number_of_value (line_value ''Confidence: high'') = None" by code_simp
  have c: "confidence (parse_vote binary64 ''Economic Analyst'' ''Confidence: 85\<newline>Confidence: high'')
       = binary64 (85 / 100)" by code_simp
  have d: "binary64 (85 / 100) \<noteq> 1 / 2" by code_simp
  have e: "is_confidence_line ''Confidence: 85''" by code_simp
  have f: "number_of_value (line_value ''Confidence: 85'') = Some 85" by code_simp
  have g: "confidence (parse_vote binary64 ''Economic Analyst'' ''Confidence: high\<newline>Confidence: 85'')
       = 1 / 2" by code_simp
  from a b c d e f g show ?thesis by (intro conjI)
qed

text \<open>
  Claim C7, as amended.  The only exception of the loop is the \<^verbatim>\<open>ValueError\<close> of an
  unparseable \<^verbatim>\<open>Confidence:\<close> value.  It is caught: the decoder returns a vote whose
  reasoning is the whole raw response and whose mood and confidence are the ones the loop
  had reached on the lines before the failing line, which are the defaults neutral and
  \<open>0.5\<close> only when no \<^verbatim>\<open>Vote:\<close> or \<^verbatim>\<open>Confidence:\<close> line precedes it.
\<close>

theorem parse_vote_exception_contained:
  "snd (parse_vote_lines rnd (split_on CHR ''\<newline>'' response) (''neutral'', 1 / 2, '''')) =
     (if \<exists>l \<in> set (split_on CHR ''\<newline>'' response). confidence_fails l
      then Some ValueError else None)
   \<and> ((\<exists>l \<in> set (split_on CHR ''\<newline>'' response). confidence_fails l) \<longrightarrow>
        parse_vote rnd role response =
          \<lparr>expert_role = role,
           vote_mood = fst (fst (parse_vote_lines rnd
                          (processed (split_on CHR ''\<newline>'' response)) (''neutral'', 1 / 2, ''''))),
           confidence = fst (snd (fst (parse_vote_lines rnd
                          (processed (split_on CHR ''\<newline>'' response)) (''neutral'', 1 / 2, '''')))),
           reasoning = response\<rparr>)
   \<and> ((\<exists>l \<in> set (split_on CHR ''\<newline>'' response). confidence_fails l)
        \<and> filter is_vote_line (processed (split_on CHR ''\<newline>'' response)) = []
        \<and> filter is_confidence_line (processed (split_on CHR ''\<newline>'' response)) = [] \<longrightarrow>
        parse_vote rnd role response =
          \<lparr>expert_role = role, vote_mood = ''neutral'', confidence = 1 / 2, reasoning = response\<rparr>)"
  by (simp add: parse_vote_def parse_vote_lines_char processed_idem Let_def)

theorem parse_vote_exception_contained_witness:
  "(\<exists>l \<in> set (split_on CHR ''\<newline>'' ''Vote: Happy\<newline>Confidence: high''). confidence_fails l)
   \<and> parse_vote binary64 ''Economic Analyst'' ''Vote: Happy\<newline>Confidence: high'' =
       \<lparr>expert_role = ''Economic Analyst'', vote_mood = ''happy'', confidence = 1 / 2,
        reasoning = ''Vote: Happy\<newline>Confidence: high''\<rparr>"
proof -
  let ?r = "''Vote: Happy\<newline>Confidence: high''"
  have f: "\<exists>l \<in> set (split_on CHR ''\<newline>'' ?r). confidence_fails l"
    by code_simp
  have m: "fst (fst (parse_vote_lines binary64 (processed (split_on CHR ''\<newline>'' ?r))
             (''neutral'', 1 / 2, ''''))) = ''happy''"
    by code_simp
  have c: "fst (snd (fst (parse_vote_lines binary64 (processed (split_on CHR ''\<newline>'' ?r))
             (''neutral'', 1 / 2, '''')))) = 1 / 2"
    by code_simp
  from parse_vote_exception_contained[of binary64 ?r "''Economic Analyst''"] f
  have "parse_vote binary64 ''Economic Analyst'' ?r =
          \<lparr>expert_role = ''Economic Analyst'',
           vote_mood = fst (fst (parse_vote_lines binary64
                          (processed (split_on CHR ''\<newline>'' ?r)) (''neutral'', 1 / 2, ''''))),
           confidence = fst (snd (fst (parse_vote_lines binary64
                          (processed (split_on CHR ''\<newline>'' ?r)) (''neutral'', 1 / 2, '''')))),
           reasoning = ?r\<rparr>"
    by blast
  then show ?thesis using f unfolding m c by blast
qed

text \<open>
  Claim C7 as stated fails: the loop raises on the second line, and the vote returned
  keeps the mood happy of the first line instead of the default neutral.
\<close>

theorem default_vote_on_exception_counterexample:
  "snd (parse_vote_lines binary64 (split_on CHR ''\<newline>'' ''Vote: Happy\<newline>Confidence: high'')
          (''neutral'', 1 / 2, '''')) = Some ValueError
   \<and> vote_mood (parse_vote binary64 ''Economic Analyst'' ''Vote: Happy\<newline>Confidence: high'') = ''happy''
   \<and> vote_mood (parse_vote binary64 ''Economic Analyst'' ''Vote: Happy\<newline>Confidence: high'') \<noteq> ''neutral''"
  by code_simp

section \<open>Routing decoder properties\<close>

text \<open>
  Claim C8, as amended.  For every moderator text and every roster the decoder reads the
  lines in order, from \<open>continue = false\<close> and no targets, and each line acts as
  \<open>spec_route_line\<close> says: a \<^verbatim>\<open>Continue:\<close> line sets \<open>continue\<close> to whether its value
  contains \<^verbatim>\<open>yes\<close>; a \<^verbatim>\<open>Target Experts:\<close> line whose value contains \<^verbatim>\<open>none\<close> sets
  \<open>continue = false\<close> and empties the targets; otherwise one whose value contains \<^verbatim>\<open>all\<close>
  replaces the targets by the roster; otherwise the value is split on commas, the tokens
  trimmed, and the roles that some token is contained in or contains, case-insensitively,
  are appended in roster order unless they are targets already.  No exception arises.
  Hence, for the last \<^verbatim>\<open>Target Experts:\<close> line of a text: with \<^verbatim>\<open>none\<close> the targets are
  empty and \<open>continue\<close> is false whatever the lines before said, unless a \<^verbatim>\<open>Continue:\<close>
  line with \<^verbatim>\<open>yes\<close> follows; with \<^verbatim>\<open>all\<close> the targets are the roster.  When it is the
  only such line and has no \<^verbatim>\<open>none\<close>, \<open>continue\<close> is what the last \<^verbatim>\<open>Continue:\<close> line
  says, and without \<^verbatim>\<open>all\<close> the targets are exactly the matching roles, distinct, and in
  roster order for a roster without duplicates.
\<close>

theorem decide_followup_lines:
  "decide_followup roster response =
     foldl (spec_route_line roster) (False, []) (split_on CHR ''\<newline>'' response)
   \<and> (split_on CHR ''\<newline>'' response = pre @ tline # post \<and> is_target_line tline
        \<and> list_all (\<lambda>l. \<not> is_target_line l) post \<longrightarrow>
      (py_in ''none'' (lower (strip (line_value tline))) \<longrightarrow>
         decide_followup roster response = (said_yes post, []))
      \<and> (\<not> py_in ''none'' (lower (strip (line_value tline)))
           \<and> py_in ''all'' (lower (strip (line_value tline))) \<longrightarrow>
         snd (decide_followup roster response) = roster)
      \<and> (\<not> py_in ''none'' (lower (strip (line_value tline)))
           \<and> list_all (\<lambda>l. \<not> is_target_line l) pre \<longrightarrow>
         fst (decide_followup roster response) = said_yes (pre @ post)
         \<and> (\<not> py_in ''all'' (lower (strip (line_value tline))) \<longrightarrow>
              set (snd (decide_followup roster response)) =
                {role \<in> set roster. mentioned_in (line_value tline) role}
              \<and> distinct (snd (decide_followup roster response))
              \<and> (distinct roster \<longrightarrow>
                   snd (decide_followup roster response) =
                     filter (mentioned_in (line_value tline)) roster))))"
proof -
  let ?d = "decide_followup roster response"
  let ?none = "py_in ''none'' (lower (strip (line_value tline)))"
  let ?all = "py_in ''all'' (lower (strip (line_value tline)))"
  let ?ms = "map strip (split_on CHR '','' (strip (line_value tline)))"
  have fold: "?d = foldl (spec_route_line roster) (False, []) (split_on CHR ''\<newline>'' response)"
    by (rule decide_followup_fold)
  have last: "?d = (if ?none then (said_yes post, [])
      else (if filter is_continue_line post = []
            then fst (foldl (spec_route_line roster) (False, []) pre) else said_yes post,
            if ?all then roster
            else snd (spec_route_line roster (foldl (spec_route_line roster) (False, []) pre) tline)))"
    if "split_on CHR ''\<newline>'' response = pre @ tline # post" "is_target_line tline"
       "list_all (\<lambda>l. \<not> is_target_line l) post"
    unfolding fold that(1) using last_target_line[OF that(2), of post roster "(False, [])" pre] that(3)
    by (simp add: list_all_iff)
  have only: "?d = (said_yes (pre @ post), if ?all then roster else match_experts roster ?ms [])"
    if "split_on CHR ''\<newline>'' response = pre @ tline # post" "is_target_line tline"
       "list_all (\<lambda>l. \<not> is_target_line l) post" "list_all (\<lambda>l. \<not> is_target_line l) pre"
       "\<not> ?none"
  proof -
    have "\<forall>l \<in> set (pre @ post). \<not> is_target_line l"
      using that(3,4) by (auto simp: list_all_iff)
    from route_lines_around_target[OF that(2) this, of roster] that(5)
    show ?thesis
      unfolding decide_followup_fst that(1) said_yes_append by simp
  qed
  have f: "distinct roster \<Longrightarrow> match_experts roster ?ms [] = filter (mentioned_in (line_value tline)) roster"
    using match_experts_filter[of roster "[]" ?ms] by (simp add: mentioned_in_def[abs_def])
  have s: "set (match_experts roster ?ms []) = {role \<in> set roster. mentioned_in (line_value tline) role}"
    by (simp add: match_experts_set mentioned_in_def)
  have dd: "distinct (match_experts roster ?ms [])"
    by (rule match_experts_distinct) simp
  show ?thesis
  proof (intro conjI impI)
    show "?d = foldl (spec_route_line roster) (False, []) (split_on CHR ''\<newline>'' response)"
      by (rule fold)
  next
    assume h: "split_on CHR ''\<newline>'' response = pre @ tline # post \<and> is_target_line tline
        \<and> list_all (\<lambda>l. \<not> is_target_line l) post"
    assume "?none"
    with last h show "?d = (said_yes post, [])" by simp
  next
    assume h: "split_on CHR ''\<newline>'' response = pre @ tline # post \<and> is_target_line tline
        \<and> list_all (\<lambda>l. \<not> is_target_line l) post"
    assume "\<not> ?none \<and> ?all"
    with last h show "snd ?d = roster" by simp
  next
    assume h: "split_on CHR ''\<newline>'' response = pre @ tline # post \<and> is_target_line tline
        \<and> list_all (\<lambda>l. \<not> is_target_line l) post"
    assume "\<not> ?none \<and> list_all (\<lambda>l. \<not> is_target_line l) pre"
    with only h show "fst ?d = said_yes (pre @ post)" by simp
  next
    assume h: "split_on CHR ''\<newline>'' response = pre @ tline # post \<and> is_target_line tline
        \<and> list_all (\<lambda>l. \<not> is_target_line l) post"
    assume a: "\<not> ?none \<and> list_all (\<lambda>l. \<not> is_target_line l) pre" and b: "\<not> ?all"
    with only h have e: "snd ?d = match_experts roster ?ms []" by simp
    show "set (snd ?d) = {role \<in> set roster. mentioned_in (line_value tline) role}"
      unfolding e by (rule s)
  next
    assume h: "split_on CHR ''\<newline>'' response = pre @ tline # post \<and> is_target_line tline
        \<and> list_all (\<lambda>l. \<not> is_target_line l) post"
    assume a: "\<not> ?none \<and> list_all (\<lambda>l. \<not> is_target_line l) pre" and b: "\<not> ?all"
    with only h have e: "snd ?d = match_experts roster ?ms []" by simp
    show "distinct (snd ?d)" unfolding e by (rule dd)
  next
    assume h: "split_on CHR ''\<newline>'' response = pre @ tline # post \<and> is_target_line tline
        \<and> list_all (\<lambda>l. \<not> is_target_line l) post"
    assume a: "\<not> ?none \<and> list_all (\<lambda>l. \<not> is_target_line l) pre" and b: "\<not> ?all"
      and d: "distinct roster"
    with only h have e: "snd ?d = match_experts roster ?ms []" by simp
    show "snd ?d = filter (mentioned_in (line_value tline)) roster"
      unfolding e by (rule f[OF d])
  qed
qed

theorem decide_followup_lines_witness:
  "split_on CHR ''\<newline>'' ''Continue: Yes\<newline>Target Experts: economic, environmental'' =
     [''Continue: Yes''] @ ''Target Experts: economic, environmental'' # []
   \<and> is_target_line ''Target Experts: economic, environmental''
   \<and> list_all (\<lambda>l. \<not> is_target_line l) [''Continue: Yes'']
   \<and> \<not> py_in ''none'' (lower (strip (line_value ''Target Experts: economic, environmental'')))
   \<and> \<not> py_in ''all'' (lower (strip (line_value ''Target Experts: economic, environmental'')))
   \<and> distinct [''Economic Analyst'', ''Social Welfare Specialist'', ''Environmental Scientist'']
   \<and> decide_followup
        [''Economic Analyst'', ''Social Welfare Specialist'', ''Environmental Scientist'']
        ''Continue: Yes\<newline>Target Experts: economic, environmental'' =
       (True, [''Economic Analyst'', ''Environmental Scientist''])
   \<and> split_on CHR ''\<newline>'' ''Continue: Yes\<newline>Target Experts: None'' =
       [''Continue: Yes''] @ ''Target Experts: None'' # []
   \<and> is_target_line ''Target Experts: None''
   \<and> py_in ''none'' (lower (strip (line_value ''Target Experts: None'')))
   \<and> decide_followup
        [''Economic Analyst'', ''Social Welfare Specialist'', ''Environmental Scientist'']
        ''Continue: Yes\<newline>Target Experts: None'' = (False, [])
   \<and> split_on CHR ''\<newline>'' ''Continue: Yes\<newline>Target Experts: All'' =
       [''Continue: Yes''] @ ''Target Experts: All'' # []
   \<and> is_target_line ''Target Experts: All''
   \<and> \<not> py_in ''none'' (lower (strip (line_value ''Target Experts: All'')))
   \<and> py_in ''all'' (lower (strip (line_value ''Target Experts: All'')))
   \<and> decide_followup
        [''Economic Analyst'', ''Social Welfare Specialist'', ''Environmental Scientist'']
        ''Continue: Yes\<newline>Target Experts: All'' =
       (True, [''Economic Analyst'', ''Social Welfare Specialist'', ''Environmental Scientist''])"
proof -
  let ?r = "''Continue: Yes\<newline>Target Experts: economic, environmental''"
  let ?tl = "''Target Experts: economic, environmental''"
  let ?roster = "[''Economic Analyst'', ''Social Welfare Specialist'', ''Environmental Scientist'']"
  have a: "split_on CHR ''\<newline>'' ?r = [''Continue: Yes''] @ ?tl # []" by code_simp
  have b: "is_target_line ?tl" by code_simp
  have c: "list_all (\<lambda>l. \<not> is_target_line l) [''Continue: Yes'']" by code_simp
  have e: "list_all (\<lambda>l. \<not> is_target_line l) []" by simp
  have n: "\<not> py_in ''none'' (lower (strip (line_value ?tl)))" by code_simp
  have al: "\<not> py_in ''all'' (lower (strip (line_value ?tl)))" by code_simp
  have y: "said_yes ([''Continue: Yes''] @ [])" by code_simp
  have dr: "distinct ?roster" by simp
  have fl: "filter (mentioned_in (line_value ?tl)) ?roster =
      [''Economic Analyst'', ''Environmental Scientist'']" by code_simp
  from decide_followup_lines[of ?roster ?r "[''Continue: Yes'']" ?tl "[]"] a b c e n al dr
  have "fst (decide_followup ?roster ?r) = said_yes ([''Continue: Yes''] @ [])"
       "snd (decide_followup ?roster ?r) = filter (mentioned_in (line_value ?tl)) ?roster"
    by blast+
  with y fl have r1: "decide_followup ?roster ?r = (True, [''Economic Analyst'', ''Environmental Scientist''])"
    by (simp add: prod_eq_iff)
  let ?rn = "''Continue: Yes\<newline>Target Experts: None''"
  let ?tn = "''Target Experts: None''"
  have an: "split_on CHR ''\<newline>'' ?rn = [''Continue: Yes''] @ ?tn # []" by code_simp
  have bn: "is_target_line ?tn" by code_simp
  have nn: "py_in ''none'' (lower (strip (line_value ?tn)))" by code_simp
  have yn: "\<not> said_yes []" by code_simp
  from decide_followup_lines[of ?roster ?rn "[''Continue: Yes'']" ?tn "[]"] an bn e nn
  have "decide_followup ?roster ?rn = (said_yes [], [])" by blast
  with yn have r2: "decide_followup ?roster ?rn = (False, [])" by simp
  let ?ra = "''Continue: Yes\<newline>Target Experts: All''"
  let ?ta = "''Target Experts: All''"
  have aa: "split_on CHR ''\<newline>'' ?ra = [''Continue: Yes''] @ ?ta # []" by code_simp
  have ba: "is_target_line ?ta" by code_simp
  have na: "\<not> py_in ''none'' (lower (strip (line_value ?ta)))" by code_simp
  have la: "py_in ''all'' (lower (strip (line_value ?ta)))" by code_simp
  from decide_followup_lines[of ?roster ?ra "[''Continue: Yes'']" ?ta "[]"] aa ba c e na la
  have "fst (decide_followup ?roster ?ra) = said_yes ([''Continue: Yes''] @ [])"
       "snd (decide_followup ?roster ?ra) = ?roster"
    by blast+
  with y have r3: "decide_followup ?roster ?ra = (True, ?roster)"
    by (simp add: prod_eq_iff)
  from a b c n al dr r1 an bn nn r2 aa ba na la r3 show ?thesis by (intro conjI)
qed

text \<open>
  Claim C8 as stated fails: a \<^verbatim>\<open>Continue: Yes\<close> line after \<^verbatim>\<open>Target Experts: None\<close> gives
  \<open>continue = true\<close>, and a \<^verbatim>\<open>Target Experts:\<close> line after it gives a target, so
  \<^verbatim>\<open>none\<close> forces neither \<open>continue = false\<close> nor an empty target set.
\<close>

theorem none_then_continue_counterexample:
  "is_target_line ''Target Experts: None''
   \<and> py_in ''none'' (lower (strip (line_value ''Target Experts: None'')))
   \<and> decide_followup
        [''Economic Analyst'', ''Social Welfare Specialist'', ''Environmental Scientist'']
        ''Target Experts: None\<newline>Continue: Yes'' = (True, [])
   \<and> decide_followup
        [''Economic Analyst'', ''Social Welfare Specialist'', ''Environmental Scientist'']
        ''Target Experts: economic\<newline>Target Experts: None\<newline>Target Experts: social'' =
       (False, [''Social Welfare Specialist''])"
proof -
  have a: "is_target_line ''Target Experts: None''" by code_simp
  have b: "py_in ''none'' (lower (strip (line_value ''Target Experts: None'')))" by code_simp
  have c: "decide_followup
        [''Economic Analyst'', ''Social Welfare Specialist'', ''Environmental Scientist'']
        ''Target Experts: None\<newline>Continue: Yes'' = (True, [])" by code_simp
  have d: "decide_followup
        [''Economic Analyst'', ''Social Welfare Specialist'', ''Environmental Scientist'']
        ''Target Experts: economic\<newline>Target Experts: None\<newline>Target Experts: social'' =
       (False, [''Social Welfare Specialist''])" by code_simp
  from a b c d show ?thesis by (intro conjI)
qed

section \<open>Properties of the discussion run\<close>

text \<open>
  Claim C2.  The result of a completed run has \<open>total_turns = len(transcripts)\<close>, and the
  \<open>turn_order\<close> values of its transcript are \<open>1, 2, \<dots>, total_turns\<close> in order, without
  duplicates or gaps.  The number is given by the log when the turn is appended (the
  counter, incremented): the caller of \<^verbatim>\<open>_add_transcript\<close> passes speaker, content and
  round only.
\<close>

theorem transcript_numbering:
  "(start_discussion llm rnd today cc tp data mx s = (Inr r, s') \<longrightarrow>
      total_turns r = length (transcripts r)
      \<and> map turn_order (transcripts r) = [1..<Suc (total_turns r)]
      \<and> distinct (map turn_order (transcripts r)))
   \<and> self_transcripts (add_transcript who ans rn p) =
        self_transcripts p
        @ [\<lparr>speaker = who, content = ans, round_number = rn,
            turn_order = Suc (self_turn_order p)\<rparr>]
   \<and> self_turn_order (add_transcript who ans rn p) = Suc (self_turn_order p)"
proof -
  have "total_turns r = length (transcripts r)
      \<and> map turn_order (transcripts r) = [1..<Suc (total_turns r)]
      \<and> distinct (map turn_order (transcripts r))"
    if a: "start_discussion llm rnd today cc tp data mx s = (Inr r, s')"
  proof -
    from start_discussion_result[OF a] have l: "log_ok s'"
      and t: "transcripts r = self_transcripts s'" "total_turns r = length (self_transcripts s')"
      by blast+
    from l have m: "map turn_order (self_transcripts s') = [1..<Suc (length (self_transcripts s'))]"
      by (simp add: log_ok_def)
    have "distinct (map turn_order (self_transcripts s'))" unfolding m by simp
    with m t show ?thesis by simp
  qed
  then show ?thesis by (simp add: add_transcript_def)
qed

theorem transcript_numbering_witness:
  "\<exists>r s'. start_discussion scripted_llm binary64 ''2025-01-01'' ''JP'' ''Economy'' None 2
             (init_panel ''m'' ()) = (Inr r, s')
     \<and> total_turns r = 14
     \<and> total_turns r = length (transcripts r)
     \<and> map turn_order (transcripts r) = [1..<Suc (total_turns r)]"
proof -
  let ?x = "start_discussion scripted_llm binary64 ''2025-01-01'' ''JP'' ''Economy'' None 2
             (init_panel ''m'' ())"
  have e: "\<not> isl (fst ?x) \<and> total_turns (projr (fst ?x)) = 14" by code_simp
  then have x: "?x = (Inr (projr (fst ?x)), snd ?x)"
    by (cases "fst ?x") (simp_all add: prod_eq_iff)
  from transcript_numbering[of scripted_llm binary64 "''2025-01-01''" "''JP''" "''Economy''" None 2
      "init_panel ''m'' ()" "projr (fst ?x)" "snd ?x"] x
  have "total_turns (projr (fst ?x)) = length (transcripts (projr (fst ?x)))
      \<and> map turn_order (transcripts (projr (fst ?x))) = [1..<Suc (total_turns (projr (fst ?x)))]"
    by blast
  with e x show ?thesis by blast
qed

text \<open>
  Claim C3.  With \<open>max_rounds \<ge> 1\<close> the result of a run has
  \<open>1 \<le> debate_rounds \<le> max_rounds\<close>, and a panel built by the constructor does return a
  result.  The loop started at round \<open>k\<close> leaves with a round number between \<open>k\<close> and
  \<open>max_rounds + 1\<close> (\<open>debate_rounds\<close> is that number less one, the loop starting at 2), and a
  decision \<open>continue = false\<close> at round \<open>k\<close> leaves it at \<open>k\<close>: the round that was not
  held is not counted.
\<close>

theorem debate_rounds_bounds:
  "(1 \<le> mx \<and> start_discussion llm rnd today cc tp data mx s = (Inr r, s') \<longrightarrow>
      1 \<le> debate_rounds r \<and> debate_rounds r \<le> mx)
   \<and> (ready s \<and> expert_roles s \<noteq> [] \<longrightarrow>
        (\<exists>r s'. start_discussion llm rnd today cc tp data mx s = (Inr r, s')))
   \<and> (debate_loop llm cc tp mx k p = (Inr n, p') \<longrightarrow> k \<le> n \<and> n \<le> max k (mx + 1))
   \<and> (k \<le> mx \<and> moderator_decide_followup llm cc tp k p = (Inr (False, t), p1) \<longrightarrow>
        debate_loop llm cc tp mx k p = (Inr k, p1))"
proof -
  have a: "1 \<le> debate_rounds r \<and> debate_rounds r \<le> mx"
    if "1 \<le> mx" "start_discussion llm rnd today cc tp data mx s = (Inr r, s')"
    using start_discussion_result[OF that(2)] that(1) by simp
  have b: "\<exists>r s'. start_discussion llm rnd today cc tp data mx s = (Inr r, s')"
    if "ready s" "expert_roles s \<noteq> []"
    using that by (rule start_discussion_total)
  have c: "k \<le> n \<and> n \<le> max k (mx + 1)" if "debate_loop llm cc tp mx k p = (Inr n, p')"
    using debate_loop_props[OF that] by blast
  have d: "debate_loop llm cc tp mx k p = (Inr k, p1)"
    if "k \<le> mx" "moderator_decide_followup llm cc tp k p = (Inr (False, t), p1)"
    using that by (rule debate_loop_stop)
  from a b c d show ?thesis by blast
qed

theorem debate_rounds_bounds_witness:
  "(1::int) \<le> 2
   \<and> (\<exists>r s'. start_discussion scripted_llm binary64 ''2025-01-01'' ''JP'' ''Economy'' None 2
               (init_panel ''m'' ()) = (Inr r, s')
        \<and> debate_rounds r = 2 \<and> 1 \<le> debate_rounds r \<and> debate_rounds r \<le> 2)
   \<and> (\<exists>r s'. start_discussion failing_llm binary64 ''2025-01-01'' ''JP'' ''Economy'' None 5
               (init_panel ''m'' ()) = (Inr r, s')
        \<and> debate_rounds r = 1 \<and> 1 \<le> debate_rounds r \<and> debate_rounds r \<le> 5)"
proof -
  let ?x = "start_discussion scripted_llm binary64 ''2025-01-01'' ''JP'' ''Economy'' None 2
             (init_panel ''m'' ())"
  let ?y = "start_discussion failing_llm binary64 ''2025-01-01'' ''JP'' ''Economy'' None 5
             (init_panel ''m'' ())"
  have e: "\<not> isl (fst ?x) \<and> debate_rounds (projr (fst ?x)) = 2" by code_simp
  then have x: "?x = (Inr (projr (fst ?x)), snd ?x)"
    by (cases "fst ?x") (simp_all add: prod_eq_iff)
  have f: "\<not> isl (fst ?y) \<and> debate_rounds (projr (fst ?y)) = 1" by code_simp
  then have y: "?y = (Inr (projr (fst ?y)), snd ?y)"
    by (cases "fst ?y") (simp_all add: prod_eq_iff)
  from debate_rounds_bounds[of 2 scripted_llm binary64 "''2025-01-01''" "''JP''" "''Economy''" None
      "init_panel ''m'' ()" "projr (fst ?x)" "snd ?x"] x
  have bx: "1 \<le> debate_rounds (projr (fst ?x)) \<and> debate_rounds (projr (fst ?x)) \<le> 2" by simp
  from debate_rounds_bounds[of 5 failing_llm binary64 "''2025-01-01''" "''JP''" "''Economy''" None
      "init_panel ''m'' ()" "projr (fst ?y)" "snd ?y"] y
  have "1 \<le> debate_rounds (projr (fst ?y)) \<and> debate_rounds (projr (fst ?y)) \<le> 5" by simp
  then have by': "1 \<le> debate_rounds (projr (fst ?y))" "debate_rounds (projr (fst ?y)) \<le> 5"
    by simp_all
  have p1: "\<exists>r s'. ?x = (Inr r, s')
        \<and> debate_rounds r = 2 \<and> 1 \<le> debate_rounds r \<and> debate_rounds r \<le> 2"
    using e x bx by (intro exI[of _ "projr (fst ?x)"] exI[of _ "snd ?x"]) simp
  have p2: "\<exists>r s'. ?y = (Inr r, s')
        \<and> debate_rounds r = 1 \<and> 1 \<le> debate_rounds r \<and> debate_rounds r \<le> 5"
    using f y by' by (intro exI[of _ "projr (fst ?y)"] exI[of _ "snd ?y"]) simp
  show ?thesis by (intro conjI) (simp, rule p1, rule p2)
qed

text \<open>
  Claim C4, as amended.  \<^verbatim>\<open>start_discussion\<close> validates nothing.  With \<open>max_rounds < 1\<close> it
  raises no error: it holds the introduction, round 1, the voting and the conclusion and
  returns a result with \<open>debate_rounds = 1\<close> and one vote per respondent.  With an empty
  roster it raises \<^verbatim>\<open>IndexError\<close>, but only when it sets up round 1, after the moderator
  has been invoked and the introduction turn appended.
\<close>

theorem no_configuration_check:
  "(mx < 1 \<and> ready s \<and> expert_roles s \<noteq> [] \<longrightarrow>
      (\<exists>r s'. start_discussion llm rnd today cc tp data mx s = (Inr r, s')
         \<and> debate_rounds r = 1 \<and> map expert_role (votes r) = expert_roles s))
   \<and> (expert_roles s = [] \<and> agents s ''moderator'' = Some agent \<longrightarrow>
        (\<exists>s'. start_discussion llm rnd today cc tp data mx s = (Inl IndexError, s')
           \<and> map speaker (self_transcripts s') = [''Moderator'']
           \<and> map turn_order (self_transcripts s') = [1]))"
proof -
  have a: "\<exists>r s'. start_discussion llm rnd today cc tp data mx s = (Inr r, s')
         \<and> debate_rounds r = 1 \<and> map expert_role (votes r) = expert_roles s"
    if "mx < 1" "ready s" "expert_roles s \<noteq> []"
  proof -
    from start_discussion_total[OF that(2,3)] obtain r s' where
      r: "start_discussion llm rnd today cc tp data mx s = (Inr r, s')" by blast
    from start_discussion_result[OF r] that(1) have "debate_rounds r = 1" by simp
    with r start_discussion_votes[OF that(2) r] show ?thesis by blast
  qed
  have b: "\<exists>s'. start_discussion llm rnd today cc tp data mx s = (Inl IndexError, s')
           \<and> map speaker (self_transcripts s') = [''Moderator'']
           \<and> map turn_order (self_transcripts s') = [1]"
    if "expert_roles s = []" "agents s ''moderator'' = Some agent"
    using that by (rule start_discussion_empty_roster)
  from a b show ?thesis by blast
qed

theorem no_configuration_check_witness:
  "(0::int) < 1 \<and> ready (init_panel ''m'' ()) \<and> expert_roles (init_panel ''m'' ()) \<noteq> []
   \<and> (\<exists>r s'. start_discussion failing_llm binary64 ''2025-01-01'' ''JP'' ''Economy'' None 0
               (init_panel ''m'' ()) = (Inr r, s')
        \<and> debate_rounds r = 1
        \<and> map expert_role (votes r) =
            [''Economic Analyst'', ''Social Welfare Specialist'', ''Environmental Scientist''])
   \<and> expert_roles ((init_panel ''m'' ())\<lparr>expert_roles := []\<rparr>) = []
   \<and> (\<exists>s'. start_discussion failing_llm binary64 ''2025-01-01'' ''JP'' ''Economy'' None 5
              ((init_panel ''m'' ())\<lparr>expert_roles := []\<rparr>) = (Inl IndexError, s')
        \<and> map speaker (self_transcripts s') = [''Moderator'']
        \<and> map turn_order (self_transcripts s') = [1])"
proof -
  have a: "(0::int) < 1" by simp
  note b = ready_init_panel[of "''m''" "()"]
  have c: "expert_roles ((init_panel ''m'' ())\<lparr>expert_roles := []\<rparr>) = []" by simp
  have d: "agents ((init_panel ''m'' ())\<lparr>expert_roles := []\<rparr>) ''moderator'' =
      Some \<lparr>agent_role = ''Moderator'', system_prompt = moderator_instruction,
            agent_model_id = ''m''\<rparr>"
    by (simp add: init_panel_def)
  have e: "expert_roles (init_panel ''m'' ()) =
      [''Economic Analyst'', ''Social Welfare Specialist'', ''Environmental Scientist'']"
    by (simp add: init_panel_def)
  note t1 = no_configuration_check[where mx=0 and s="init_panel ''m'' ()" and llm=failing_llm
      and rnd=binary64 and today="''2025-01-01''" and cc="''JP''" and tp="''Economy''"
      and data=None, THEN conjunct1, rule_format, OF conjI[OF a conjI[OF b]]]
  note t2 = no_configuration_check[where mx=5
      and s="(init_panel ''m'' ())\<lparr>expert_roles := []\<rparr>"
      and llm=failing_llm and rnd=binary64 and today="''2025-01-01''" and cc="''JP''"
      and tp="''Economy''" and data=None, THEN conjunct2, rule_format, OF conjI[OF c d]]
  show ?thesis
    by (intro conjI) (rule a b c t1[unfolded e] t2)+
qed

text \<open>
  Claim C4 as stated fails: with \<open>max_rounds = 0\<close> the run of a freshly built panel returns
  a result (no error), with ten transcript turns and \<open>debate_rounds = 1\<close>.
\<close>

theorem configuration_error_counterexample:
  "\<not> isl (fst (start_discussion failing_llm binary64 ''2025-01-01'' ''JP'' ''Economy'' None 0
                (init_panel ''m'' ())))
   \<and> debate_rounds (projr (fst (start_discussion failing_llm binary64 ''2025-01-01'' ''JP''
                ''Economy'' None 0 (init_panel ''m'' ())))) = 1
   \<and> total_turns (projr (fst (start_discussion failing_llm binary64 ''2025-01-01'' ''JP''
                ''Economy'' None 0 (init_panel ''m'' ())))) = 10"
  by code_simp

text \<open>
  Claim C9.  When the text-completion capability fails, \<^verbatim>\<open>respond\<close> returns the sentinel
  \<^verbatim>\<open>[Error from <role>]\<close> (and the capability's text otherwise); the orchestrator's call
  through \<^verbatim>\<open>self.agents[key]\<close> gets that string; and for every capability whatever, failing
  or not, the run of a panel whose roster is not empty and whose roles have agents returns
  a result.
\<close>

theorem respondent_failure_isolated:
  "(fst (llm w agent prompt) = None \<longrightarrow>
      fst (respond llm agent prompt w) = ''[Error from '' @ agent_role agent @ '']'')
   \<and> (fst (llm w agent prompt) = Some response \<longrightarrow> fst (respond llm agent prompt w) = response)
   \<and> (agents s key = Some agent \<longrightarrow>
        fst (agent_respond llm key prompt s) = Inr (fst (respond llm agent prompt (world s))))
   \<and> (ready s \<and> expert_roles s \<noteq> [] \<longrightarrow>
        (\<exists>r s'. start_discussion llm rnd today cc tp data mx s = (Inr r, s')))"
proof -
  have a: "fst (llm w agent prompt) = None \<Longrightarrow>
      fst (respond llm agent prompt w) = ''[Error from '' @ agent_role agent @ '']''"
    by (cases "llm w agent prompt") (simp add: respond_def)
  have b: "fst (llm w agent prompt) = Some response \<Longrightarrow> fst (respond llm agent prompt w) = response"
    by (cases "llm w agent prompt") (simp add: respond_def)
  have c: "agents s key = Some agent \<Longrightarrow>
        fst (agent_respond llm key prompt s) = Inr (fst (respond llm agent prompt (world s)))"
    by (simp add: agent_respond_def split: prod.splits)
  have d: "\<exists>r s'. start_discussion llm rnd today cc tp data mx s = (Inr r, s')"
    if "ready s" "expert_roles s \<noteq> []"
    using that by (rule start_discussion_total)
  from a b c d show ?thesis by blast
qed

theorem respondent_failure_isolated_witness:
  "fst (failing_llm () \<lparr>agent_role = ''Economic Analyst'', system_prompt = ''You are an expert.'',
                        agent_model_id = ''m''\<rparr> ''Your analysis?'') = None
   \<and> fst (respond failing_llm \<lparr>agent_role = ''Economic Analyst'',
              system_prompt = ''You are an expert.'', agent_model_id = ''m''\<rparr>
              ''Your analysis?'' ()) = ''[Error from Economic Analyst]''
   \<and> ready (init_panel ''m'' ()) \<and> expert_roles (init_panel ''m'' ()) \<noteq> []
   \<and> (\<exists>r s'. start_discussion failing_llm binary64 ''2025-01-01'' ''JP'' ''Economy'' None 5
               (init_panel ''m'' ()) = (Inr r, s'))"
proof -
  let ?a = "\<lparr>agent_role = ''Economic Analyst'', system_prompt = ''You are an expert.'',
             agent_model_id = ''m''\<rparr>"
  have n: "fst (failing_llm () ?a ''Your analysis?'') = None" by (simp add: failing_llm_def)
  note b = ready_init_panel[of "''m''" "()"]
  from respondent_failure_isolated[where llm=failing_llm and w="()" and agent="?a"
      and prompt="''Your analysis?''" and s="init_panel ''m'' ()" and rnd=binary64
      and today="''2025-01-01''" and cc="''JP''" and tp="''Economy''" and data=None and mx=5] n b
  have "fst (respond failing_llm ?a ''Your analysis?'' ()) = ''[Error from '' @ agent_role ?a @ '']''"
    and "\<exists>r s'. start_discussion failing_llm binary64 ''2025-01-01'' ''JP'' ''Economy'' None 5
               (init_panel ''m'' ()) = (Inr r, s')"
    by blast+
  with n b show ?thesis by simp
qed

text \<open>
  Claim C10.  A debate round asked for with an empty target list is the round asked for
  with the full roster: the moderator's turn, then one analysis and one turn per role of
  the roster, in roster order.  The loop holds that round whenever the decision is
  \<open>continue = true\<close> with no targets, which is what the decoder answers when the
  \<^verbatim>\<open>Target Experts:\<close> line is absent or none of its tokens matches a role.
\<close>

theorem empty_targets_mean_everyone:
  "conduct_dynamic_debate_round llm cc tp rn [] s =
     conduct_dynamic_debate_round llm cc tp rn (expert_roles s) s
   \<and> (ready s \<longrightarrow>
        (\<exists>s'. conduct_dynamic_debate_round llm cc tp rn [] s = (Inr (), s')
           \<and> map a_expert_role (self_analyses s') =
               map a_expert_role (self_analyses s) @ expert_roles s
           \<and> map speaker (self_transcripts s') =
               map speaker (self_transcripts s) @ ''Moderator'' # expert_roles s))
   \<and> (k \<le> mx \<and> moderator_decide_followup llm cc tp k s = (Inr (True, []), s1) \<longrightarrow>
        debate_loop llm cc tp mx k s =
          (case conduct_dynamic_debate_round llm cc tp k (expert_roles s1) s1 of
             (Inl e, s2) \<Rightarrow> (Inl e, s2)
           | (Inr u, s2) \<Rightarrow> debate_loop llm cc tp mx (k + 1) s2))
   \<and> (list_all (\<lambda>l. \<not> is_target_line l) (split_on CHR ''\<newline>'' response) \<longrightarrow>
        decide_followup roster response = (said_yes (split_on CHR ''\<newline>'' response), []))
   \<and> (split_on CHR ''\<newline>'' response = pre @ tline # post \<and> is_target_line tline
        \<and> list_all (\<lambda>l. \<not> is_target_line l) (pre @ post)
        \<and> \<not> py_in ''none'' (lower (strip (line_value tline)))
        \<and> \<not> py_in ''all'' (lower (strip (line_value tline)))
        \<and> list_all (\<lambda>role. \<not> mentioned_in (line_value tline) role) roster \<longrightarrow>
        decide_followup roster response = (said_yes (pre @ post), []))"
proof -
  have a: "conduct_dynamic_debate_round llm cc tp rn [] s =
     conduct_dynamic_debate_round llm cc tp rn (expert_roles s) s"
    by (simp add: conduct_dynamic_debate_round_def)
  have b: "\<exists>s'. conduct_dynamic_debate_round llm cc tp rn [] s = (Inr (), s')
           \<and> map a_expert_role (self_analyses s') =
               map a_expert_role (self_analyses s) @ expert_roles s
           \<and> map speaker (self_transcripts s') =
               map speaker (self_transcripts s) @ ''Moderator'' # expert_roles s"
    if rd: "ready s"
  proof -
    obtain res s' where c: "conduct_dynamic_debate_round llm cc tp rn [] s = (res, s')"
      by (cases "conduct_dynamic_debate_round llm cc tp rn [] s")
    from conduct_dynamic_debate_round_total[OF rd _ c] c show ?thesis by simp
  qed
  have c: "debate_loop llm cc tp mx k s =
          (case conduct_dynamic_debate_round llm cc tp k (expert_roles s1) s1 of
             (Inl e, s2) \<Rightarrow> (Inl e, s2)
           | (Inr u, s2) \<Rightarrow> debate_loop llm cc tp mx (k + 1) s2)"
    if "k \<le> mx" "moderator_decide_followup llm cc tp k s = (Inr (True, []), s1)"
    using debate_loop_continue[OF that]
    by (simp add: conduct_dynamic_debate_round_def del: debate_loop.simps)
  have d: "decide_followup roster response = (said_yes (split_on CHR ''\<newline>'' response), [])"
    if "list_all (\<lambda>l. \<not> is_target_line l) (split_on CHR ''\<newline>'' response)"
  proof -
    from that have "\<forall>l \<in> set (split_on CHR ''\<newline>'' response). \<not> is_target_line l"
      by (simp add: list_all_iff)
    from route_lines_no_target[OF this, of roster False "[]"]
    show ?thesis by (simp add: decide_followup_fst said_yes_def)
  qed
  have e: "decide_followup roster response = (said_yes (pre @ post), [])"
    if "split_on CHR ''\<newline>'' response = pre @ tline # post" "is_target_line tline"
      "list_all (\<lambda>l. \<not> is_target_line l) (pre @ post)"
      "\<not> py_in ''none'' (lower (strip (line_value tline)))"
      "\<not> py_in ''all'' (lower (strip (line_value tline)))"
      "list_all (\<lambda>role. \<not> mentioned_in (line_value tline) role) roster"
  proof -
    from that(3) have nt: "\<forall>l \<in> set (pre @ post). \<not> is_target_line l"
      by (simp add: list_all_iff)
    let ?ms = "map strip (split_on CHR '','' (strip (line_value tline)))"
    have "set (match_experts roster ?ms []) = {}"
      using that(6) by (auto simp: match_experts_set mentioned_in_def list_all_iff)
    then have "match_experts roster ?ms [] = []" by simp
    then show ?thesis
      unfolding decide_followup_fst that(1) route_lines_around_target[OF that(2) nt]
      using that(4,5) by (simp add: said_yes_append)
  qed
  from a b c d e show ?thesis by blast
qed

theorem empty_targets_mean_everyone_witness:
  "ready (init_panel ''m'' ())
   \<and> (\<exists>s'. conduct_dynamic_debate_round scripted_llm ''JP'' ''Economy'' 2 []
              (init_panel ''m'' ()) = (Inr (), s')
        \<and> map a_expert_role (self_analyses s') =
            [''Economic Analyst'', ''Social Welfare Specialist'', ''Environmental Scientist'']
        \<and> map speaker (self_transcripts s') =
            [''Moderator'', ''Economic Analyst'', ''Social Welfare Specialist'',
             ''Environmental Scientist''])
   \<and> list_all (\<lambda>l. \<not> is_target_line l) (split_on CHR ''\<newline>'' ''Continue: Yes'')
   \<and> decide_followup [''Economic Analyst'', ''Social Welfare Specialist'',
        ''Environmental Scientist''] ''Continue: Yes'' = (True, [])
   \<and> decide_followup [''Economic Analyst'', ''Social Welfare Specialist'',
        ''Environmental Scientist''] ''Continue: Yes\<newline>Target Experts: the historian''
       = (True, [])"
proof -
  let ?roster = "[''Economic Analyst'', ''Social Welfare Specialist'', ''Environmental Scientist'']"
  note b = ready_init_panel(1)[of "''m''" "()"]
  have i: "expert_roles (init_panel ''m'' ()) = ?roster"
    "self_analyses (init_panel ''m'' ()) = []" "self_transcripts (init_panel ''m'' ()) = []"
    by (simp_all add: init_panel_def)
  have l: "list_all (\<lambda>l. \<not> is_target_line l) (split_on CHR ''\<newline>'' ''Continue: Yes'')"
    by code_simp
  have y: "said_yes (split_on CHR ''\<newline>'' ''Continue: Yes'')" by code_simp
  note t = empty_targets_mean_everyone[where llm=scripted_llm and cc="''JP''" and tp="''Economy''"
      and rn=2 and s="init_panel ''m'' ()" and response="''Continue: Yes''" and roster="?roster"]
  from t[THEN conjunct2, THEN conjunct1, rule_format, OF b]
  have p1: "\<exists>s'. conduct_dynamic_debate_round scripted_llm ''JP'' ''Economy'' 2 []
              (init_panel ''m'' ()) = (Inr (), s')
        \<and> map a_expert_role (self_analyses s') = ?roster
        \<and> map speaker (self_transcripts s') = ''Moderator'' # ?roster"
    unfolding i by (simp only: list.map append_Nil)
  from t[THEN conjunct2, THEN conjunct2, THEN conjunct2, THEN conjunct1, rule_format, OF l]
  have p2: "decide_followup ?roster ''Continue: Yes'' = (True, [])"
    by (simp only: y[THEN eqTrueI])
  have p3: "decide_followup ?roster ''Continue: Yes\<newline>Target Experts: the historian'' = (True, [])"
    by code_simp
  from b p1 l p2 p3 show ?thesis by (intro conjI)
qed

end
